theory Spec2Isabelle
  imports Main
begin

section \<open>Python string operations used by the analyzer\<close>

text \<open>
  \<^verbatim>\<open>s.split(sep)\<close> for a one-character separator: the segments between the occurrences
  of the separator. The result is never empty (\<^verbatim>\<open>"".split(".") == [""]\<close>), so the
  indexings \<^verbatim>\<open>[0]\<close> and \<^verbatim>\<open>[-1]\<close> of the source never raise; they are written \<open>hd\<close> and
  \<open>last\<close> below, and \<open>split_not_Nil\<close> is the fact that justifies it.
\<close>

fun split :: "char \<Rightarrow> string \<Rightarrow> string list" where
  "split sep [] = [[]]"
| "split sep (c # cs) =
     (if c = sep then [] # split sep cs
      else (case split sep cs of
              [] \<Rightarrow> [[c]]
            | seg # segs \<Rightarrow> (c # seg) # segs))"

text \<open>\<^verbatim>\<open>s.startswith(p)\<close>.\<close>

definition startswith :: "string \<Rightarrow> string \<Rightarrow> bool" where
  "startswith s p = (take (length p) s = p)"

text \<open>\<^verbatim>\<open>sep.join(xs)\<close>.\<close>

fun join :: "string \<Rightarrow> string list \<Rightarrow> string" where
  "join sep [] = []"
| "join sep [x] = x"
| "join sep (x # y # ys) = x @ sep @ join sep (y # ys)"

text \<open>
  \<^verbatim>\<open>xs[a:b]\<close>: a negative bound counts from the end, and both bounds are clamped to
  the list.
\<close>

definition slice_bound :: "nat \<Rightarrow> int \<Rightarrow> nat" where
  "slice_bound n i = (if i < 0 then nat (max 0 (int n + i)) else min n (nat i))"

definition py_slice :: "'a list \<Rightarrow> int \<Rightarrow> int \<Rightarrow> 'a list" where
  "py_slice xs a b =
     (let lo = slice_bound (length xs) a; hi = slice_bound (length xs) b
      in take (hi - lo) (drop lo xs))"

section \<open>The syntax tree\<close>

text \<open>
  The tree that \<^verbatim>\<open>ast.parse\<close> returns, with the node classes the analyzer tells apart.
  \<open>Stmt\<close> is any other subclass of \<^verbatim>\<open>ast.stmt\<close>, \<open>Other\<close> any other node (expressions,
  arguments, handlers, ...). A statement carries \<^verbatim>\<open>lineno\<close> and \<^verbatim>\<open>end_lineno\<close>, each
  optional as the source reads them with \<^verbatim>\<open>getattr(..., None)\<close>. The node lists are the
  children in the order of \<^verbatim>\<open>ast.iter_child_nodes\<close>. The \<^verbatim>\<open>alias\<close> children of an import
  and the context and operator marker nodes are leaves that no visitor method of the
  source reacts to and that are never on the parent chain of a reference; an import keeps
  its aliases as data and a name or attribute keeps its context as data.
\<close>

datatype expr_context = Load | Store | Del

datatype alias_node = Alias (alias_name: string) (alias_asname: "string option")

datatype node =
    Module "node list"
  | FunctionDef "int option" "int option" "node list"
  | AsyncFunctionDef "int option" "int option" "node list"
  | ClassDef "int option" "int option" "node list"
  | Import "int option" "int option" "alias_node list"
  | ImportFrom "int option" "int option" "string option" "alias_node list"
  | Stmt "int option" "int option" "node list"
  | Name string expr_context
  | Attribute node string expr_context
  | Other "node list"

text \<open>
  Python compares and hashes nodes by identity. The identity of a node of a tree is its
  position: the child indices from the node up to the root, innermost first. A reference
  to a node is the node together with its identity.
\<close>

type_synonym path = "nat list"
type_synonym ref = "path \<times> node"

fun iter_child_nodes :: "node \<Rightarrow> node list" where
  "iter_child_nodes (Module body) = body"
| "iter_child_nodes (FunctionDef _ _ cs) = cs"
| "iter_child_nodes (AsyncFunctionDef _ _ cs) = cs"
| "iter_child_nodes (ClassDef _ _ cs) = cs"
| "iter_child_nodes (Import _ _ _) = []"
| "iter_child_nodes (ImportFrom _ _ _ _) = []"
| "iter_child_nodes (Stmt _ _ cs) = cs"
| "iter_child_nodes (Name _ _) = []"
| "iter_child_nodes (Attribute v _ _) = [v]"
| "iter_child_nodes (Other cs) = cs"

fun child_refs_from :: "path \<Rightarrow> nat \<Rightarrow> node list \<Rightarrow> ref list" where
  "child_refs_from p i [] = []"
| "child_refs_from p i (c # cs) = (i # p, c) # child_refs_from p (Suc i) cs"

definition child_refs :: "ref \<Rightarrow> ref list" where
  "child_refs r = child_refs_from (fst r) 0 (iter_child_nodes (snd r))"

text \<open>\<^verbatim>\<open>isinstance(n, (ast.FunctionDef, ast.AsyncFunctionDef, ast.ClassDef))\<close>.\<close>

fun is_def :: "node \<Rightarrow> bool" where
  "is_def (FunctionDef _ _ _) = True"
| "is_def (AsyncFunctionDef _ _ _) = True"
| "is_def (ClassDef _ _ _) = True"
| "is_def _ = False"

text \<open>\<^verbatim>\<open>isinstance(n, ast.stmt)\<close>.\<close>

fun is_stmt :: "node \<Rightarrow> bool" where
  "is_stmt (FunctionDef _ _ _) = True"
| "is_stmt (AsyncFunctionDef _ _ _) = True"
| "is_stmt (ClassDef _ _ _) = True"
| "is_stmt (Import _ _ _) = True"
| "is_stmt (ImportFrom _ _ _ _) = True"
| "is_stmt (Stmt _ _ _) = True"
| "is_stmt _ = False"

fun is_Attribute :: "node \<Rightarrow> bool" where
  "is_Attribute (Attribute _ _ _) = True"
| "is_Attribute _ = False"

text \<open>\<^verbatim>\<open>getattr(n, "lineno", None)\<close> and \<^verbatim>\<open>getattr(n, "end_lineno", None)\<close>.\<close>

fun lineno :: "node \<Rightarrow> int option" where
  "lineno (FunctionDef l _ _) = l"
| "lineno (AsyncFunctionDef l _ _) = l"
| "lineno (ClassDef l _ _) = l"
| "lineno (Import l _ _) = l"
| "lineno (ImportFrom l _ _ _) = l"
| "lineno (Stmt l _ _) = l"
| "lineno _ = None"

fun end_lineno :: "node \<Rightarrow> int option" where
  "end_lineno (FunctionDef _ e _) = e"
| "end_lineno (AsyncFunctionDef _ e _) = e"
| "end_lineno (ClassDef _ e _) = e"
| "end_lineno (Import _ e _) = e"
| "end_lineno (ImportFrom _ e _ _) = e"
| "end_lineno (Stmt _ e _) = e"
| "end_lineno _ = None"

section \<open>The alias collector\<close>

record AliasCollector =
  base :: string
  base_root :: string
  aliases :: "string set"

definition AliasCollector_init :: "string \<Rightarrow> AliasCollector" where
  "AliasCollector_init library =
     \<lparr>base = library, base_root = hd (split CHR ''.'' library), aliases = {}\<rparr>"

definition matches_library :: "AliasCollector \<Rightarrow> string \<Rightarrow> bool" where
  "matches_library self module_name =
     (module_name = base self
      \<or> startswith module_name (base self @ ''.'')
      \<or> hd (split CHR ''.'' module_name) = base_root self)"

text \<open>
  Python's \<^verbatim>\<open>x or y\<close> on an optional string: \<^verbatim>\<open>None\<close> and \<^verbatim>\<open>""\<close> are false, and then
  the value is \<open>y\<close>. \<^verbatim>\<open>if alias.asname: a else: b\<close> adds \<^verbatim>\<open>alias.asname or b\<close>.
\<close>

fun or_else :: "string option \<Rightarrow> string \<Rightarrow> string" where
  "or_else None d = d"
| "or_else (Some s) d = (if s = [] then d else s)"

definition add_alias :: "string \<Rightarrow> AliasCollector \<Rightarrow> AliasCollector" where
  "add_alias a self = self\<lparr>aliases := insert a (aliases self)\<rparr>"

text \<open>The body of the loop over \<^verbatim>\<open>node.names\<close> in \<^verbatim>\<open>visit_Import\<close>.\<close>

definition import_alias_step :: "alias_node \<Rightarrow> AliasCollector \<Rightarrow> AliasCollector" where
  "import_alias_step al self =
     (if matches_library self (alias_name al)
      then add_alias (or_else (alias_asname al) (hd (split CHR ''.'' (alias_name al)))) self
      else self)"

definition visit_Import :: "alias_node list \<Rightarrow> AliasCollector \<Rightarrow> AliasCollector" where
  "visit_Import names self = fold import_alias_step names self"

text \<open>The body of the loop over \<^verbatim>\<open>node.names\<close> in \<^verbatim>\<open>visit_ImportFrom\<close>.\<close>

definition importfrom_alias_step :: "string \<Rightarrow> alias_node \<Rightarrow> AliasCollector \<Rightarrow> AliasCollector" where
  "importfrom_alias_step module al self =
     (if alias_name al = ''*''
      then add_alias (base_root self) (add_alias (last (split CHR ''.'' module)) self)
      else add_alias (or_else (alias_asname al) (alias_name al)) self)"

definition visit_ImportFrom :: "string option \<Rightarrow> alias_node list \<Rightarrow> AliasCollector \<Rightarrow> AliasCollector" where
  "visit_ImportFrom module names self =
     (case module of
        None \<Rightarrow> self
      | Some m \<Rightarrow>
          if m \<noteq> [] \<and> matches_library self m
          then fold (importfrom_alias_step m) names self
          else self)"

text \<open>
  \<^verbatim>\<open>NodeVisitor.visit\<close> of the alias collector: the two import methods, and
  \<^verbatim>\<open>generic_visit\<close> (every child, in order) for every other node.
\<close>

fun alias_visit :: "node \<Rightarrow> AliasCollector \<Rightarrow> AliasCollector"
  and alias_visit_children :: "node list \<Rightarrow> AliasCollector \<Rightarrow> AliasCollector" where
  "alias_visit (Import _ _ names) self = visit_Import names self"
| "alias_visit (ImportFrom _ _ module names) self = visit_ImportFrom module names self"
| "alias_visit (Module cs) self = alias_visit_children cs self"
| "alias_visit (FunctionDef _ _ cs) self = alias_visit_children cs self"
| "alias_visit (AsyncFunctionDef _ _ cs) self = alias_visit_children cs self"
| "alias_visit (ClassDef _ _ cs) self = alias_visit_children cs self"
| "alias_visit (Stmt _ _ cs) self = alias_visit_children cs self"
| "alias_visit (Name _ _) self = self"
| "alias_visit (Attribute v _ _) self = alias_visit v self"
| "alias_visit (Other cs) self = alias_visit_children cs self"
| "alias_visit_children [] self = self"
| "alias_visit_children (c # cs) self = alias_visit_children cs (alias_visit c self)"

section \<open>The parent index\<close>

text \<open>
  \<^verbatim>\<open>_populate_parent_links\<close>: the loop over a stack of nodes. The head of the list is
  the top of the stack; the children of the popped node are pushed in order, so the last
  child is popped next. The dictionary is keyed by node identity.
\<close>

lemma size_iter_child_nodes: "sum_list (map (\<lambda>c. Suc (size c)) (iter_child_nodes n)) \<le> size n"
proof -
  have eq: "sum_list (map (\<lambda>c. Suc (size c)) cs) = size_list size cs" for cs :: "node list"
    by (induction cs) auto
  show ?thesis
    by (cases n) (simp_all add: eq)
qed

lemma size_child_refs_from:
  "sum_list (map (\<lambda>r. Suc (size (snd r))) (child_refs_from p i cs))
    = sum_list (map (\<lambda>c. Suc (size c)) cs)"
  by (induction cs arbitrary: i) auto

function populate_loop :: "ref list \<Rightarrow> (path \<rightharpoonup> ref) \<Rightarrow> (path \<rightharpoonup> ref)" where
  "populate_loop [] parent = parent"
| "populate_loop (nd # stack) parent =
     populate_loop (rev (child_refs nd) @ stack)
       (fold (\<lambda>child par. par(fst child \<mapsto> nd)) (child_refs nd) parent)"
  by pat_completeness auto
termination
proof (relation "measure (\<lambda>(stack, parent). sum_list (map (\<lambda>r. Suc (size (snd r))) stack))")
  show "wf (measure (\<lambda>(stack, parent). sum_list (map (\<lambda>r. Suc (size (snd r))) stack)))"
    by simp
next
  fix nd :: ref and stack :: "ref list" and parent :: "path \<rightharpoonup> ref"
  have "sum_list (map (\<lambda>r. Suc (size (snd r))) (rev (child_refs nd))) \<le> size (snd nd)"
    using size_iter_child_nodes [of "snd nd"]
    by (simp add: child_refs_def size_child_refs_from rev_map [symmetric])
  then show "((rev (child_refs nd) @ stack,
               fold (\<lambda>child par. par(fst child \<mapsto> nd)) (child_refs nd) parent),
              nd # stack, parent)
             \<in> measure (\<lambda>(stack, parent). sum_list (map (\<lambda>r. Suc (size (snd r))) stack))"
    by simp
qed

section \<open>The usage collector\<close>

record BlockCapture =
  start_line :: int
  end_line :: int
  symbol :: string
  snippet :: string

record UsageCollector =
  uc_lines :: "string list"
  uc_aliases :: "string set"
  uc_parent :: "path \<rightharpoonup> ref"
  blocks_map :: "((int \<times> int) \<times> BlockCapture) list"

text \<open>
  \<open>blocks_map\<close> is a dictionary, which keeps its keys in insertion order: an association
  list with distinct keys, a new key appended. \<open>blocks\<close> is \<^verbatim>\<open>list(blocks_map.values())\<close>.
\<close>

definition UsageCollector_init ::
  "string list \<Rightarrow> string set \<Rightarrow> (path \<rightharpoonup> ref) \<Rightarrow> UsageCollector" where
  "UsageCollector_init ls als par =
     \<lparr>uc_lines = ls, uc_aliases = als, uc_parent = par, blocks_map = []\<rparr>"

definition blocks :: "UsageCollector \<Rightarrow> BlockCapture list" where
  "blocks self = map snd (blocks_map self)"

text \<open>
  \<^verbatim>\<open>_enclosing_block\<close>: the loop up the parent chain. On a parent index with a cycle the
  loop of the source does not end; the value is then \<open>None\<close>. \<open>Some None\<close> is the
  source's \<^verbatim>\<open>return None\<close>.
\<close>

partial_function (option) enclosing_block_loop ::
  "(path \<rightharpoonup> ref) \<Rightarrow> ref option \<Rightarrow> ref option \<Rightarrow> ref option option" where
  "enclosing_block_loop par current closest_stmt =
     (case current of
        None \<Rightarrow> Some closest_stmt
      | Some c \<Rightarrow>
          if is_def (snd c) then Some (Some c)
          else enclosing_block_loop par (par (fst c))
                 (if is_stmt (snd c) then Some c else closest_stmt))"

declare enclosing_block_loop.simps [code]

definition enclosing_block :: "UsageCollector \<Rightarrow> ref \<Rightarrow> ref option option" where
  "enclosing_block self nd = enclosing_block_loop (uc_parent self) (Some nd) None"

text \<open>
  The libraries the analyzer calls and the repository does not hold: the parser (which
  raises on some texts), \<^verbatim>\<open>str.splitlines\<close>, \<^verbatim>\<open>textwrap.dedent\<close> and \<^verbatim>\<open>str.strip\<close>.
\<close>

datatype py_exception = SyntaxError | OtherException

record pylib =
  ast_parse :: "string \<Rightarrow> py_exception + node"
  splitlines :: "string \<Rightarrow> string list"
  dedent :: "string \<Rightarrow> string"
  strip :: "string \<Rightarrow> string"

definition make_snippet :: "pylib \<Rightarrow> string list \<Rightarrow> int \<Rightarrow> int \<Rightarrow> string" where
  "make_snippet L ls start end =
     strip L (dedent L (join [CHR 0x0A] (py_slice ls (start - 1) end)))"

text \<open>\<^verbatim>\<open>_record\<close>.\<close>

definition record_usage :: "pylib \<Rightarrow> UsageCollector \<Rightarrow> ref \<Rightarrow> string \<Rightarrow> UsageCollector option" where
  "record_usage L self nd sym_name =
     (case enclosing_block self nd of
        None \<Rightarrow> None
      | Some None \<Rightarrow> Some self
      | Some (Some container) \<Rightarrow>
          (case lineno (snd container) of
             None \<Rightarrow> Some self
           | Some start \<Rightarrow>
               (let end = (case end_lineno (snd container) of None \<Rightarrow> start | Some e \<Rightarrow> e);
                    key = (start, end)
                in if key \<in> fst ` set (blocks_map self) then Some self
                   else Some (self\<lparr>blocks_map := blocks_map self @
                          [(key, \<lparr>start_line = start, end_line = end, symbol = sym_name,
                                  snippet = make_snippet L (uc_lines self) start end\<rparr>)]\<rparr>))))"

text \<open>\<^verbatim>\<open>_part_of_attribute\<close>: the parent is an attribute access and the node is its value.\<close>

definition part_of_attribute :: "UsageCollector \<Rightarrow> ref \<Rightarrow> bool" where
  "part_of_attribute self nd =
     (case uc_parent self (fst nd) of
        None \<Rightarrow> False
      | Some par \<Rightarrow> is_Attribute (snd par) \<and> 0 # fst par = fst nd)"

text \<open>\<^verbatim>\<open>_attribute_root\<close> and \<^verbatim>\<open>_attribute_full_name\<close>: the loops down the value chain.\<close>

fun attribute_root :: "node \<Rightarrow> node" where
  "attribute_root (Attribute v _ _) = attribute_root v"
| "attribute_root n = n"

fun attribute_parts :: "node \<Rightarrow> string list \<Rightarrow> string list" where
  "attribute_parts (Attribute v a _) parts = attribute_parts v (parts @ [a])"
| "attribute_parts (Name i _) parts = parts @ [i]"
| "attribute_parts _ parts = parts"

definition attribute_full_name :: "node \<Rightarrow> string" where
  "attribute_full_name n = join ''.'' (rev (attribute_parts n []))"

text \<open>\<^verbatim>\<open>isinstance(root, ast.Name) and root.id in self.aliases\<close>.\<close>

fun name_in :: "string set \<Rightarrow> node \<Rightarrow> bool" where
  "name_in als (Name i _) = (i \<in> als)"
| "name_in als _ = False"

text \<open>
  \<^verbatim>\<open>NodeVisitor.visit\<close> of the usage collector: \<^verbatim>\<open>visit_Name\<close>, \<^verbatim>\<open>visit_Attribute\<close> (each
  followed by \<^verbatim>\<open>generic_visit\<close>) and \<^verbatim>\<open>generic_visit\<close> for every other node.
  \<open>visit_children p i cs\<close> visits the children \<open>cs\<close> of the node \<open>p\<close>, the first of them
  being child \<open>i\<close>.
\<close>

fun visit :: "pylib \<Rightarrow> path \<Rightarrow> node \<Rightarrow> UsageCollector \<Rightarrow> UsageCollector option"
  and visit_children ::
    "pylib \<Rightarrow> path \<Rightarrow> nat \<Rightarrow> node list \<Rightarrow> UsageCollector \<Rightarrow> UsageCollector option" where
  "visit L p (Name i cx) self =
     (if i \<in> uc_aliases self \<and> \<not> part_of_attribute self (p, Name i cx)
      then record_usage L self (p, Name i cx) i
      else Some self)"
| "visit L p (Attribute v a cx) self =
     (case (if name_in (uc_aliases self) (attribute_root (Attribute v a cx))
            then record_usage L self (p, Attribute v a cx)
                   (attribute_full_name (Attribute v a cx))
            else Some self) of
        None \<Rightarrow> None
      | Some self' \<Rightarrow> visit L (0 # p) v self')"
| "visit L p (Module cs) self = visit_children L p 0 cs self"
| "visit L p (FunctionDef _ _ cs) self = visit_children L p 0 cs self"
| "visit L p (AsyncFunctionDef _ _ cs) self = visit_children L p 0 cs self"
| "visit L p (ClassDef _ _ cs) self = visit_children L p 0 cs self"
| "visit L p (Import _ _ _) self = Some self"
| "visit L p (ImportFrom _ _ _ _) self = Some self"
| "visit L p (Stmt _ _ cs) self = visit_children L p 0 cs self"
| "visit L p (Other cs) self = visit_children L p 0 cs self"
| "visit_children L p i [] self = Some self"
| "visit_children L p i (c # cs) self =
     (case visit L (i # p) c self of
        None \<Rightarrow> None
      | Some self' \<Rightarrow> visit_children L p (Suc i) cs self')"

section \<open>The extractor and the facade\<close>

record LibraryUsageExtractor =
  library :: string
  source :: string
  lines :: "string list"
  tree :: node
  parent :: "path \<rightharpoonup> ref"

text \<open>\<^verbatim>\<open>_LibraryUsageExtractor.__init__\<close>: the parser's exception escapes the constructor.\<close>

definition new_extractor :: "pylib \<Rightarrow> string \<Rightarrow> string \<Rightarrow> py_exception + LibraryUsageExtractor" where
  "new_extractor L lib src =
     (case ast_parse L src of
        Inl e \<Rightarrow> Inl e
      | Inr t \<Rightarrow> Inr \<lparr>library = lib, source = src, lines = splitlines L src, tree = t,
                      parent = Map.empty\<rparr>)"

definition populate_parent_links :: "LibraryUsageExtractor \<Rightarrow> LibraryUsageExtractor" where
  "populate_parent_links self = self\<lparr>parent := populate_loop [([], tree self)] (parent self)\<rparr>"

definition collect_aliases :: "string \<Rightarrow> node \<Rightarrow> string set" where
  "collect_aliases lib t = aliases (alias_visit t (AliasCollector_init lib))"

text \<open>
  \<^verbatim>\<open>extract_blocks\<close> returns the blocks and leaves the parent index in the extractor.
\<close>

definition extract_blocks ::
  "pylib \<Rightarrow> LibraryUsageExtractor \<Rightarrow> (BlockCapture list \<times> LibraryUsageExtractor) option" where
  "extract_blocks L self0 =
     (let self = populate_parent_links self0;
          alias_names = collect_aliases (library self) (tree self)
      in if alias_names = {} then Some ([], self)
         else (case visit L [] (tree self)
                      (UsageCollector_init (lines self) alias_names (parent self)) of
                 None \<Rightarrow> None
               | Some usage_collector \<Rightarrow> Some (blocks usage_collector, self)))"

text \<open>
  \<^verbatim>\<open>analyze_library\<close>, from the search results on: an item comes with the text that
  \<^verbatim>\<open>_download_source\<close> returned, or with \<open>None\<close> when the download raised (the item is
  skipped). A \<^verbatim>\<open>SyntaxError\<close> of the constructor skips the item; any other exception
  escapes.
\<close>

record search_item =
  item_full_name :: string
  item_path :: string
  item_html_url :: string

record CodeBlock = BlockCapture +
  repository :: string
  file_path :: string
  html_url :: string

definition to_CodeBlock :: "search_item \<Rightarrow> BlockCapture \<Rightarrow> CodeBlock" where
  "to_CodeBlock item b =
     \<lparr>start_line = start_line b, end_line = end_line b, symbol = symbol b,
      snippet = snippet b, repository = item_full_name item, file_path = item_path item,
      html_url = item_html_url item\<rparr>"

fun analyze_items ::
  "pylib \<Rightarrow> string \<Rightarrow> (search_item \<times> string option) list \<Rightarrow> CodeBlock list
   \<Rightarrow> (py_exception + CodeBlock list) option" where
  "analyze_items L lib [] results = Some (Inr results)"
| "analyze_items L lib ((item, None) # rest) results = analyze_items L lib rest results"
| "analyze_items L lib ((item, Some src) # rest) results =
     (case new_extractor L lib src of
        Inl SyntaxError \<Rightarrow> analyze_items L lib rest results
      | Inl OtherException \<Rightarrow> Some (Inl OtherException)
      | Inr extractor \<Rightarrow>
          (case extract_blocks L extractor of
             None \<Rightarrow> None
           | Some (bs, _) \<Rightarrow>
               analyze_items L lib rest (results @ map (to_CodeBlock item) bs)))"

definition analyze_library ::
  "pylib \<Rightarrow> string \<Rightarrow> (search_item \<times> string option) list
   \<Rightarrow> (py_exception + CodeBlock list) option" where
  "analyze_library L lib items = analyze_items L lib items []"

section \<open>The match rule as the specification words it\<close>

text \<open>
  The first dotted segment of a path, and the rule: \<open>P\<close> matches \<open>L\<close> if \<open>P\<close> is \<open>L\<close>, or
  \<open>P\<close> starts with \<open>L\<close> followed by a dot, or the first segments of \<open>P\<close> and \<open>L\<close> agree.
\<close>

definition first_segment :: "string \<Rightarrow> string" where
  "first_segment s = takeWhile (\<lambda>c. c \<noteq> CHR ''.'') s"

definition spec_matches :: "string \<Rightarrow> string \<Rightarrow> bool" where
  "spec_matches L P =
     (P = L \<or> (\<exists>rest. P = L @ ''.'' @ rest) \<or> first_segment P = first_segment L)"

section \<open>The tree, read without the parent index\<close>

text \<open>
  The definitions of this section are not translations of the source: they say, on the
  tree alone, what the parent index, the walk up the parent chain and the traversal
  compute. The facts below relate the source's functions to them.

  \<open>node_at t p\<close> is the node of \<open>t\<close> with identity \<open>p\<close>, if there is one.
\<close>

fun node_at :: "node \<Rightarrow> path \<Rightarrow> node option" where
  "node_at t [] = Some t"
| "node_at t (i # q) =
     (case node_at t q of
        None \<Rightarrow> None
      | Some m \<Rightarrow> if i < length (iter_child_nodes m) then Some (iter_child_nodes m ! i) else None)"

text \<open>The parent of every node but the root.\<close>

definition parent_index :: "node \<Rightarrow> (path \<rightharpoonup> ref)" where
  "parent_index t k =
     (case k of
        [] \<Rightarrow> None
      | i # q \<Rightarrow> (case node_at t (i # q) of None \<Rightarrow> None | Some c \<Rightarrow> map_option (Pair q) (node_at t q)))"

text \<open>\<open>below q k\<close>: the position \<open>k\<close> lies strictly under the position \<open>q\<close>.\<close>

definition below :: "path \<Rightarrow> path \<Rightarrow> bool" where
  "below q k = (\<exists>r. r \<noteq> [] \<and> k = r @ q)"

text \<open>The ancestors of a position, nearest first, up to the root.\<close>

fun ancestors :: "node \<Rightarrow> path \<Rightarrow> ref list" where
  "ancestors t [] = []"
| "ancestors t (i # q) = (case node_at t q of None \<Rightarrow> [] | Some m \<Rightarrow> (q, m) # ancestors t q)"

text \<open>
  One pass along a chain of nodes, nearest first: the first definition ends the pass;
  otherwise every statement met replaces the one remembered.
\<close>

fun scan :: "ref list \<Rightarrow> ref option \<Rightarrow> ref option" where
  "scan [] closest = closest"
| "scan (c # cs) closest =
     (if is_def (snd c) then Some c
      else scan cs (if is_stmt (snd c) then Some c else closest))"

definition enclosing_of :: "node \<Rightarrow> ref \<Rightarrow> ref option" where
  "enclosing_of t r = scan (r # ancestors t (fst r)) None"

text \<open>
  The base identifier and the attribute segments (innermost first) of a dotted chain
  \<^verbatim>\<open>base.seg1.seg2\<close>; \<open>None\<close> for a node that is not such a chain.
\<close>

fun dotted :: "node \<Rightarrow> (string \<times> string list) option" where
  "dotted (Name b _) = Some (b, [])"
| "dotted (Attribute v a _) =
     (case dotted v of None \<Rightarrow> None | Some (b, segs) \<Rightarrow> Some (b, segs @ [a]))"
| "dotted _ = None"

text \<open>
  The candidate references of a tree with their symbols, in the order of the traversal
  (a node before its children, the children in order). \<open>is_base\<close> says that the node is
  the value of an attribute access: a bare identifier there is no candidate.
\<close>

fun candidates :: "string set \<Rightarrow> path \<Rightarrow> bool \<Rightarrow> node \<Rightarrow> (ref \<times> string) list"
  and candidates_children :: "string set \<Rightarrow> path \<Rightarrow> nat \<Rightarrow> node list \<Rightarrow> (ref \<times> string) list" where
  "candidates als p is_base (Name i cx) =
     (if i \<in> als \<and> \<not> is_base then [((p, Name i cx), i)] else [])"
| "candidates als p is_base (Attribute v a cx) =
     (case dotted (Attribute v a cx) of
        None \<Rightarrow> []
      | Some (b, segs) \<Rightarrow>
          if b \<in> als then [((p, Attribute v a cx), join ''.'' (b # segs))] else [])
     @ candidates als (0 # p) True v"
| "candidates als p is_base (Module cs) = candidates_children als p 0 cs"
| "candidates als p is_base (FunctionDef _ _ cs) = candidates_children als p 0 cs"
| "candidates als p is_base (AsyncFunctionDef _ _ cs) = candidates_children als p 0 cs"
| "candidates als p is_base (ClassDef _ _ cs) = candidates_children als p 0 cs"
| "candidates als p is_base (Import _ _ _) = []"
| "candidates als p is_base (ImportFrom _ _ _ _) = []"
| "candidates als p is_base (Stmt _ _ cs) = candidates_children als p 0 cs"
| "candidates als p is_base (Other cs) = candidates_children als p 0 cs"
| "candidates_children als p i [] = []"
| "candidates_children als p i (c # cs) =
     candidates als (i # p) False c @ candidates_children als p (Suc i) cs"

text \<open>The span of the enclosing block of a reference, when it has one with a line.\<close>

definition span_of :: "node \<Rightarrow> ref \<Rightarrow> (int \<times> int) option" where
  "span_of t r =
     (case enclosing_of t r of
        None \<Rightarrow> None
      | Some c \<Rightarrow>
          (case lineno (snd c) of
             None \<Rightarrow> None
           | Some s \<Rightarrow> Some (s, case end_lineno (snd c) of None \<Rightarrow> s | Some e \<Rightarrow> e)))"

definition span :: "BlockCapture \<Rightarrow> int \<times> int" where
  "span b = (start_line b, end_line b)"

text \<open>The block stored for a span and a symbol, and the effect of one candidate.\<close>

definition new_block :: "pylib \<Rightarrow> string list \<Rightarrow> int \<times> int \<Rightarrow> string \<Rightarrow> BlockCapture" where
  "new_block L ls k s =
     \<lparr>start_line = fst k, end_line = snd k, symbol = s,
      snippet = make_snippet L ls (fst k) (snd k)\<rparr>"

definition add_candidate :: "pylib \<Rightarrow> node \<Rightarrow> UsageCollector \<Rightarrow> ref \<times> string \<Rightarrow> UsageCollector" where
  "add_candidate L t self c =
     (case span_of t (fst c) of
        None \<Rightarrow> self
      | Some k \<Rightarrow>
          if k \<in> fst ` set (blocks_map self) then self
          else self\<lparr>blocks_map := blocks_map self @ [(k, new_block L (uc_lines self) k (snd c))]\<rparr>)"

definition base_of_attribute :: "node \<Rightarrow> path \<Rightarrow> bool" where
  "base_of_attribute t p =
     (case p of
        [] \<Rightarrow> False
      | i # q \<Rightarrow> i = 0 \<and> (case node_at t q of None \<Rightarrow> False | Some m \<Rightarrow> is_Attribute m))"

text \<open>The candidates that have a span, as pairs of span and symbol, in order.\<close>

definition keyed :: "node \<Rightarrow> (ref \<times> string) list \<Rightarrow> ((int \<times> int) \<times> string) list" where
  "keyed t cs = List.map_filter (\<lambda>c. map_option (\<lambda>k. (k, snd c)) (span_of t (fst c))) cs"

text \<open>
  The candidates of a tree for a library that have a span, each as the pair of its span
  and its symbol, in the order of the traversal.
\<close>

definition span_candidates :: "string \<Rightarrow> node \<Rightarrow> ((int \<times> int) \<times> string) list" where
  "span_candidates lib t = keyed t (candidates (collect_aliases lib t) [] False t)"

text \<open>
  A dictionary of blocks that agrees with a list of span and symbol pairs: its keys are
  distinct and are the spans of the list, and each block carries the symbol of the FIRST
  pair of its span (\<open>map_of\<close> returns the first match) and the snippet of its span.
\<close>

definition well_keyed :: "pylib \<Rightarrow> string list \<Rightarrow> ((int \<times> int) \<times> string) list
    \<Rightarrow> ((int \<times> int) \<times> BlockCapture) list \<Rightarrow> bool" where
  "well_keyed L ls K bm \<longleftrightarrow>
     distinct (map fst bm)
     \<and> fst ` set bm = fst ` set K
     \<and> list_all (\<lambda>e. map_of K (fst e) = Some (symbol (snd e))
                      \<and> snd e = new_block L ls (fst e) (symbol (snd e))) bm"

text \<open>
  Every node of a tree, a node before its children. \<open>import_names lib n\<close> are the names
  that the import statement \<open>n\<close> binds to the library \<open>lib\<close>: for \<^verbatim>\<open>import X as Z\<close> the
  name \<open>Z\<close>, or the first segment of \<open>X\<close>; for \<^verbatim>\<open>from M import A as Z\<close> the name \<open>Z\<close>, or
  \<open>A\<close>; for \<^verbatim>\<open>from M import *\<close> the last segment of \<open>M\<close> and the root segment of the
  library.
\<close>

fun subnodes :: "node \<Rightarrow> node list" and subnodes_list :: "node list \<Rightarrow> node list" where
  "subnodes (Module cs) = Module cs # subnodes_list cs"
| "subnodes (FunctionDef l e cs) = FunctionDef l e cs # subnodes_list cs"
| "subnodes (AsyncFunctionDef l e cs) = AsyncFunctionDef l e cs # subnodes_list cs"
| "subnodes (ClassDef l e cs) = ClassDef l e cs # subnodes_list cs"
| "subnodes (Import l e names) = [Import l e names]"
| "subnodes (ImportFrom l e m names) = [ImportFrom l e m names]"
| "subnodes (Stmt l e cs) = Stmt l e cs # subnodes_list cs"
| "subnodes (Name i cx) = [Name i cx]"
| "subnodes (Attribute v a cx) = Attribute v a cx # subnodes v"
| "subnodes (Other cs) = Other cs # subnodes_list cs"
| "subnodes_list [] = []"
| "subnodes_list (c # cs) = subnodes c @ subnodes_list cs"

fun import_names :: "string \<Rightarrow> node \<Rightarrow> string set" where
  "import_names lib (Import _ _ names) =
     {or_else (alias_asname al) (first_segment (alias_name al)) | al.
        al \<in> set names \<and> spec_matches lib (alias_name al)}"
| "import_names lib (ImportFrom _ _ (Some m) names) =
     (if m \<noteq> [] \<and> spec_matches lib m
      then (\<Union>al \<in> set names.
              if alias_name al = ''*'' then {last (split CHR ''.'' m), first_segment lib}
              else {or_else (alias_asname al) (alias_name al)})
      else {})"
| "import_names lib _ = {}"

text \<open>An import statement whose module path matches the library, by the match rule.\<close>

definition imports_library :: "string \<Rightarrow> node \<Rightarrow> bool" where
  "imports_library lib n =
     (case n of
        Import _ _ names \<Rightarrow> \<exists>al \<in> set names. spec_matches lib (alias_name al)
      | ImportFrom _ _ (Some m) _ \<Rightarrow> spec_matches lib m
      | _ \<Rightarrow> False)"

text \<open>A collector whose root segment is the one the constructor computes.\<close>

definition coherent :: "AliasCollector \<Rightarrow> bool" where
  "coherent self \<longleftrightarrow> base_root self = hd (split CHR ''.'' (base self))"

text \<open>
  The blocks of a tree: every candidate of the traversal, in order, stored under its
  span unless the span is taken.
\<close>

definition traversal_blocks :: "pylib \<Rightarrow> string \<Rightarrow> string list \<Rightarrow> node \<Rightarrow> BlockCapture list" where
  "traversal_blocks L lib ls t =
     blocks (foldl (add_candidate L t)
       (UsageCollector_init ls (collect_aliases lib t) (parent_index t))
       (candidates (collect_aliases lib t) [] False t))"

text \<open>
  The order of the text. The parser gives every expression its place in the text
  (\<^verbatim>\<open>lineno\<close>, \<^verbatim>\<open>col_offset\<close>); the tree above keeps the lines of statements only, so the
  places come as a function of the node's identity. \<open>document_first_symbol pos lib t k\<close>
  is the symbol of the candidate that stands first in the text among those with the
  span \<open>k\<close>.
\<close>

definition before_in_text :: "int \<times> int \<Rightarrow> int \<times> int \<Rightarrow> bool" where
  "before_in_text a b = (fst a < fst b \<or> (fst a = fst b \<and> snd a < snd b))"

fun first_in_text :: "(path \<Rightarrow> int \<times> int) \<Rightarrow> (ref \<times> string) list \<Rightarrow> (ref \<times> string) option" where
  "first_in_text pos [] = None"
| "first_in_text pos (c # cs) =
     (case first_in_text pos cs of
        None \<Rightarrow> Some c
      | Some d \<Rightarrow> if before_in_text (pos (fst (fst d))) (pos (fst (fst c))) then Some d else Some c)"

definition document_first_symbol ::
  "(path \<Rightarrow> int \<times> int) \<Rightarrow> string \<Rightarrow> node \<Rightarrow> int \<times> int \<Rightarrow> string option" where
  "document_first_symbol pos lib t k =
     map_option snd
       (first_in_text pos
          (filter (\<lambda>c. span_of t (fst c) = Some k) (candidates (collect_aliases lib t) [] False t)))"



section \<open>Example programs\<close>

text \<open>
  Source texts with the trees that \<^verbatim>\<open>ast.parse\<close> gives for them, for the closed instances
  below. \<open>example_lib\<close> is a stand-in for the libraries that knows these texts only: it
  parses them to their trees and rejects every other text, splits lines at the newline
  character, and leaves a snippet as it is. That is what \<^verbatim>\<open>textwrap.dedent\<close> and
  \<^verbatim>\<open>str.strip\<close> do to a snippet with no margin and no outer blank space, as the snippets
  of top-level blocks are; on the snippet of a nested block (the function \<open>g\<close> below)
  the stand-in keeps the margin that the library removes, and no statement below gives
  such a snippet.
\<close>

definition nl :: string where
  "nl = [CHR 0x0A]"

text \<open>
  \<^verbatim>\<open>import numpy as np\<close>, \<^verbatim>\<open>def f():\<close>, \<^verbatim>\<open>    return np.array([1, 2])\<close>.
\<close>

definition numpy_lines :: "string list" where
  "numpy_lines = [''import numpy as np'', ''def f():'', ''    return np.array([1, 2])'']"

definition numpy_tree :: node where
  "numpy_tree =
     Module [Import (Some 1) (Some 1) [Alias ''numpy'' (Some ''np'')],
       FunctionDef (Some 2) (Some 3) [Other [],
         Stmt (Some 3) (Some 3)
           [Other [Attribute (Name ''np'' Load) ''array'' Load, Other [Other [], Other []]]]]]"

text \<open>\<^verbatim>\<open>import pkg\<close>, \<^verbatim>\<open>def f():\<close>, \<^verbatim>\<open>    pkg.sub.fn()\<close>.\<close>

definition pkg_lines :: "string list" where
  "pkg_lines = [''import pkg'', ''def f():'', ''    pkg.sub.fn()'']"

definition pkg_tree :: node where
  "pkg_tree =
     Module [Import (Some 1) (Some 1) [Alias ''pkg'' None],
       FunctionDef (Some 2) (Some 3) [Other [],
         Stmt (Some 3) (Some 3)
           [Other [Attribute (Attribute (Name ''pkg'' Load) ''sub'' Load) ''fn'' Load]]]]"

text \<open>
  \<^verbatim>\<open>import numpy as np\<close>, \<^verbatim>\<open>def f():\<close>, \<^verbatim>\<open>    a = np.zeros(3)\<close>, \<^verbatim>\<open>    return np.sum(a)\<close>.
\<close>

definition two_lines :: "string list" where
  "two_lines = [''import numpy as np'', ''def f():'', ''    a = np.zeros(3)'',
     ''    return np.sum(a)'']"

definition two_tree :: node where
  "two_tree =
     Module [Import (Some 1) (Some 1) [Alias ''numpy'' (Some ''np'')],
       FunctionDef (Some 2) (Some 4) [Other [],
         Stmt (Some 3) (Some 3)
           [Name ''a'' Store, Other [Attribute (Name ''np'' Load) ''zeros'' Load, Other []]],
         Stmt (Some 4) (Some 4)
           [Other [Attribute (Name ''np'' Load) ''sum'' Load, Name ''a'' Load]]]]"

text \<open>\<^verbatim>\<open>import numpy as np\<close>, \<^verbatim>\<open>if c:\<close>, \<^verbatim>\<open>    x = np.array(1)\<close>.\<close>

definition if_lines :: "string list" where
  "if_lines = [''import numpy as np'', ''if c:'', ''    x = np.array(1)'']"

definition if_tree :: node where
  "if_tree =
     Module [Import (Some 1) (Some 1) [Alias ''numpy'' (Some ''np'')],
       Stmt (Some 2) (Some 3) [Name ''c'' Load,
         Stmt (Some 3) (Some 3)
           [Name ''x'' Store, Other [Attribute (Name ''np'' Load) ''array'' Load, Other []]]]]"

text \<open>
  \<^verbatim>\<open>import numpy as np\<close>, \<^verbatim>\<open>def f():\<close>, \<^verbatim>\<open>    np.a()\<close>, \<^verbatim>\<open>    def g():\<close>,
  \<^verbatim>\<open>        np.b()\<close>.
\<close>

definition nested_lines :: "string list" where
  "nested_lines = [''import numpy as np'', ''def f():'', ''    np.a()'', ''    def g():'',
     ''        np.b()'']"

definition nested_tree :: node where
  "nested_tree =
     Module [Import (Some 1) (Some 1) [Alias ''numpy'' (Some ''np'')],
       FunctionDef (Some 2) (Some 5) [Other [],
         Stmt (Some 3) (Some 3) [Other [Attribute (Name ''np'' Load) ''a'' Load]],
         FunctionDef (Some 4) (Some 5) [Other [],
           Stmt (Some 5) (Some 5) [Other [Attribute (Name ''np'' Load) ''b'' Load]]]]]"

text \<open>\<^verbatim>\<open>def f():\<close>, \<^verbatim>\<open>    import numpy as np\<close>, \<^verbatim>\<open>    return np.zeros(1)\<close>.\<close>

definition local_lines :: "string list" where
  "local_lines = [''def f():'', ''    import numpy as np'', ''    return np.zeros(1)'']"

definition local_tree :: node where
  "local_tree =
     Module [FunctionDef (Some 1) (Some 3) [Other [],
       Import (Some 2) (Some 2) [Alias ''numpy'' (Some ''np'')],
       Stmt (Some 3) (Some 3)
         [Other [Attribute (Name ''np'' Load) ''zeros'' Load, Other []]]]]"

text \<open>\<^verbatim>\<open>import numpy as np\<close>, \<^verbatim>\<open>np = 5\<close>.\<close>

definition rebind_lines :: "string list" where
  "rebind_lines = [''import numpy as np'', ''np = 5'']"

definition rebind_tree :: node where
  "rebind_tree =
     Module [Import (Some 1) (Some 1) [Alias ''numpy'' (Some ''np'')],
       Stmt (Some 2) (Some 2) [Name ''np'' Store, Other []]]"

text \<open>\<^verbatim>\<open>import pandas\<close>, \<^verbatim>\<open>pandas.x\<close>.\<close>

definition pandas_lines :: "string list" where
  "pandas_lines = [''import pandas'', ''pandas.x'']"

definition pandas_tree :: node where
  "pandas_tree =
     Module [Import (Some 1) (Some 1) [Alias ''pandas'' None],
       Stmt (Some 2) (Some 2) [Attribute (Name ''pandas'' Load) ''x'' Load]]"

text \<open>
  \<^verbatim>\<open>import numpy as np\<close>, \<^verbatim>\<open>@np.vectorize\<close>, \<^verbatim>\<open>def f(x):\<close>, \<^verbatim>\<open>    return np.sin(x)\<close>. The
  function's children are its arguments, its body and then its decorators, as
  \<^verbatim>\<open>ast.iter_child_nodes\<close> lists them. \<open>deco_position\<close> is the place (\<^verbatim>\<open>lineno\<close>,
  \<^verbatim>\<open>col_offset\<close>) that the parser gives the names and attribute accesses of this text.
\<close>

definition deco_lines :: "string list" where
  "deco_lines = [''import numpy as np'', ''@np.vectorize'', ''def f(x):'', ''    return np.sin(x)'']"

definition deco_tree :: node where
  "deco_tree =
     Module [Import (Some 1) (Some 1) [Alias ''numpy'' (Some ''np'')],
       FunctionDef (Some 3) (Some 4) [Other [Other []],
         Stmt (Some 4) (Some 4)
           [Other [Attribute (Name ''np'' Load) ''sin'' Load, Name ''x'' Load]],
         Attribute (Name ''np'' Load) ''vectorize'' Load]]"

definition deco_position :: "path \<Rightarrow> int \<times> int" where
  "deco_position p =
     (case map_of
        [([2, 1], (2, 1)), ([0, 2, 1], (2, 1)),
         ([0, 0, 1, 1], (4, 11)), ([0, 0, 0, 1, 1], (4, 11)), ([1, 0, 1, 1], (4, 18))] p of
        None \<Rightarrow> (0, 0)
      | Some q \<Rightarrow> q)"

text \<open>\<^verbatim>\<open>import numpy as np\<close>, \<^verbatim>\<open>def f():\<close>, \<^verbatim>\<open>    np = 5\<close>.\<close>

definition fnstore_lines :: "string list" where
  "fnstore_lines = [''import numpy as np'', ''def f():'', ''    np = 5'']"

definition fnstore_tree :: node where
  "fnstore_tree =
     Module [Import (Some 1) (Some 1) [Alias ''numpy'' (Some ''np'')],
       FunctionDef (Some 2) (Some 3) [Other [],
         Stmt (Some 3) (Some 3) [Name ''np'' Store, Other []]]]"

definition example_parse :: "string \<Rightarrow> py_exception + node" where
  "example_parse s =
     (case map_of
        [(join nl numpy_lines, numpy_tree), (join nl pkg_lines, pkg_tree),
         (join nl two_lines, two_tree), (join nl if_lines, if_tree),
         (join nl nested_lines, nested_tree), (join nl local_lines, local_tree),
         (join nl rebind_lines, rebind_tree), (join nl pandas_lines, pandas_tree),
         (join nl deco_lines, deco_tree), (join nl fnstore_lines, fnstore_tree)] s of
        None \<Rightarrow> Inl SyntaxError
      | Some t \<Rightarrow> Inr t)"

definition example_lib :: pylib where
  "example_lib =
     \<lparr>ast_parse = example_parse, splitlines = split (CHR 0x0A), dedent = id, strip = id\<rparr>"

definition example_item :: search_item where
  "example_item =
     \<lparr>item_full_name = ''owner/repo'', item_path = ''a.py'', item_html_url = ''https://h/a.py''\<rparr>"

text \<open>An extractor as the constructor leaves it, for a tree already parsed.\<close>

definition extractor_of :: "string \<Rightarrow> string list \<Rightarrow> node \<Rightarrow> LibraryUsageExtractor" where
  "extractor_of lib ls t =
     \<lparr>library = lib, source = join nl ls, lines = ls, tree = t, parent = Map.empty\<rparr>"

text \<open>
  The usage collector as \<^verbatim>\<open>extract_blocks\<close> builds it for the text with the \<^verbatim>\<open>if\<close>, and a
  collector for the text with \<^verbatim>\<open>pkg.sub.fn()\<close>.
\<close>

definition if_collector :: UsageCollector where
  "if_collector =
     (let ex = populate_parent_links (extractor_of ''numpy'' if_lines if_tree)
      in UsageCollector_init (lines ex) (collect_aliases (library ex) (tree ex)) (parent ex))"

definition pkg_collector :: UsageCollector where
  "pkg_collector = UsageCollector_init pkg_lines {''pkg''} (parent_index pkg_tree)"

section \<open>Facts about the string operations\<close>

lemma split_not_Nil: "split sep s \<noteq> []"
  by (induction s) (auto split: list.splits)

lemma hd_split: "hd (split sep s) = takeWhile (\<lambda>c. c \<noteq> sep) s"
  by (induction s) (auto split: list.splits simp: split_not_Nil)

lemma startswith_iff: "startswith s p \<longleftrightarrow> (\<exists>rest. s = p @ rest)"
proof
  assume "startswith s p"
  then have "s = p @ drop (length p) s"
    unfolding startswith_def by (metis append_take_drop_id)
  then show "\<exists>rest. s = p @ rest" ..
next
  assume "\<exists>rest. s = p @ rest"
  then show "startswith s p"
    by (auto simp: startswith_def)
qed

lemma first_segment_append_dot: "first_segment (L @ CHR ''.'' # rest) = first_segment L"
  by (induction L) (auto simp: first_segment_def)

text \<open>
  The first two clauses of the rule are contained in the third: a path matches exactly
  when it has the library's first segment.
\<close>

lemma spec_matches_root: "spec_matches L P \<longleftrightarrow> first_segment P = first_segment L"
  by (auto simp: spec_matches_def first_segment_append_dot)

section \<open>The parent index of a tree\<close>

lemma node_at_append_None: "node_at t q = None \<Longrightarrow> node_at t (r @ q) = None"
  by (induction r) auto

lemma set_child_refs_from:
  "set (child_refs_from p i cs) = {((j + i) # p, cs ! j) | j. j < length cs}"
proof (induction cs arbitrary: i)
  case Nil
  then show ?case by simp
next
  case (Cons c cs)
  have "{((j + i) # p, (c # cs) ! j) | j. j < length (c # cs)}
        = insert (i # p, c) {((j + Suc i) # p, cs ! j) | j. j < length cs}"
  proof (rule set_eqI, rule iffI)
    fix x assume "x \<in> {((j + i) # p, (c # cs) ! j) | j. j < length (c # cs)}"
    then obtain j where j: "x = ((j + i) # p, (c # cs) ! j)" "j < length (c # cs)" by blast
    show "x \<in> insert (i # p, c) {((j + Suc i) # p, cs ! j) | j. j < length cs}"
    proof (cases j)
      case 0
      with j show ?thesis by simp
    next
      case (Suc j')
      with j show ?thesis by auto
    qed
  next
    fix x assume "x \<in> insert (i # p, c) {((j + Suc i) # p, cs ! j) | j. j < length cs}"
    then consider "x = (i # p, c)" | j where "x = ((j + Suc i) # p, cs ! j)" "j < length cs" by blast
    then show "x \<in> {((j + i) # p, (c # cs) ! j) | j. j < length (c # cs)}"
    proof cases
      case 1
      then have "x = ((0 + i) # p, (c # cs) ! 0) \<and> 0 < length (c # cs)" by simp
      then show ?thesis by blast
    next
      case 2
      then have "x = ((Suc j + i) # p, (c # cs) ! Suc j) \<and> Suc j < length (c # cs)" by simp
      then show ?thesis by blast
    qed
  qed
  with Cons show ?case by simp
qed

lemma set_child_refs:
  "set (child_refs (q, n)) = {(j # q, iter_child_nodes n ! j) | j. j < length (iter_child_nodes n)}"
  by (simp add: child_refs_def set_child_refs_from)

lemma fold_parent_upd:
  "fold (\<lambda>child par. par(fst child \<mapsto> nd)) kids par k
     = (if k \<in> fst ` set kids then Some nd else par k)"
  by (induction kids arbitrary: par) auto

lemma populate_loop_inv:
  assumes "\<forall>r \<in> set stk. node_at t (fst r) = Some (snd r)"
  shows "populate_loop stk par k
          = (if (\<exists>r \<in> set stk. below (fst r) k) \<and> node_at t k \<noteq> None
             then parent_index t k else par k)"
  using assms
proof (induction stk par rule: populate_loop.induct)
  case (1 parent)
  then show ?case by simp
next
  case (2 nd stack parent)
  obtain q n where nd: "nd = (q, n)" by (cases nd)
  let ?cs = "iter_child_nodes n"
  let ?kids = "child_refs nd"
  let ?par' = "fold (\<lambda>child par. par(fst child \<mapsto> nd)) ?kids parent"
  have qn: "node_at t q = Some n" using "2.prems" nd by simp
  have kids: "set ?kids = {(j # q, ?cs ! j) | j. j < length ?cs}"
    by (simp add: nd set_child_refs)
  have kids_valid: "\<forall>r \<in> set ?kids. node_at t (fst r) = Some (snd r)"
    using qn by (auto simp: kids)
  have valid': "\<forall>r \<in> set (rev ?kids @ stack). node_at t (fst r) = Some (snd r)"
    using kids_valid "2.prems" by auto
  have IH: "populate_loop (rev ?kids @ stack) ?par' k
          = (if (\<exists>r \<in> set (rev ?kids @ stack). below (fst r) k) \<and> node_at t k \<noteq> None
             then parent_index t k else ?par' k)"
    using "2.IH" [OF valid'] .
  have par': "?par' k = (if k \<in> fst ` set ?kids then Some nd else parent k)"
    by (rule fold_parent_upd)
  have keys: "k \<in> fst ` set ?kids \<longleftrightarrow> (\<exists>j < length ?cs. k = j # q)"
    by (auto simp: kids image_iff)
  have key_parent: "parent_index t k = Some nd" if "k \<in> fst ` set ?kids"
  proof -
    from that obtain j where "j < length ?cs" "k = j # q" using keys by blast
    then show ?thesis using qn by (simp add: parent_index_def nd)
  qed
  have key_valid: "node_at t k \<noteq> None" if "k \<in> fst ` set ?kids"
  proof -
    from that obtain j where "j < length ?cs" "k = j # q" using keys by blast
    then show ?thesis using qn by simp
  qed
  have key_below: "below q k" if "k \<in> fst ` set ?kids"
  proof -
    from that obtain j where "k = [j] @ q" using keys by auto
    then show ?thesis unfolding below_def by blast
  qed
  have kid_below: "below q k" if "r \<in> set ?kids" "below (fst r) k" for r
  proof -
    from that obtain j s where "fst r = j # q" "s \<noteq> []" "k = s @ fst r"
      by (auto simp: kids below_def)
    then have "k = (s @ [j]) @ q" by simp
    then show ?thesis unfolding below_def by blast
  qed
  have below_split: "k \<in> fst ` set ?kids \<or> (\<exists>r \<in> set ?kids. below (fst r) k)"
    if b: "below q k" and v: "node_at t k \<noteq> None"
  proof -
    from b obtain s where s: "s \<noteq> []" "k = s @ q" unfolding below_def by blast
    then obtain s' j where s': "s = s' @ [j]" by (metis rev_exhaust)
    then have k: "k = s' @ (j # q)" using s by simp
    have "node_at t (j # q) \<noteq> None"
    proof
      assume "node_at t (j # q) = None"
      then have "node_at t (s' @ (j # q)) = None" by (rule node_at_append_None)
      with v k show False by (simp del: node_at.simps)
    qed
    then have j: "j < length ?cs" using qn by (auto split: if_splits)
    show ?thesis
    proof (cases "s' = []")
      case True
      then have "k \<in> fst ` set ?kids" using k j keys by simp
      then show ?thesis ..
    next
      case False
      have "(j # q, ?cs ! j) \<in> set ?kids" using j by (auto simp: kids)
      moreover have "below (j # q) k" using False k unfolding below_def by blast
      ultimately show ?thesis by force
    qed
  qed
  define C1 where "C1 \<longleftrightarrow> (\<exists>r \<in> set (nd # stack). below (fst r) k) \<and> node_at t k \<noteq> None"
  define C2 where "C2 \<longleftrightarrow> (\<exists>r \<in> set (rev ?kids @ stack). below (fst r) k) \<and> node_at t k \<noteq> None"
  have lhs: "populate_loop (nd # stack) parent k = (if C2 then parent_index t k else ?par' k)"
    using IH by (simp add: C2_def)
  have C2_C1: "C1" if "C2"
  proof -
    from that obtain r where r: "r \<in> set ?kids \<union> set stack" "below (fst r) k"
      and v: "node_at t k \<noteq> None" unfolding C2_def by auto
    have "\<exists>r \<in> set (nd # stack). below (fst r) k"
    proof (cases "r \<in> set ?kids")
      case True
      then have "below (fst nd) k" using kid_below r nd by simp
      then show ?thesis by simp
    next
      case False
      then show ?thesis using r by auto
    qed
    then show ?thesis using v by (simp add: C1_def)
  qed
  have C1_key: "k \<in> fst ` set ?kids" if "C1" "\<not> C2"
  proof -
    from that have v: "node_at t k \<noteq> None" by (simp add: C1_def)
    from that have no: "\<not> (\<exists>r \<in> set ?kids. below (fst r) k)" "\<not> (\<exists>r \<in> set stack. below (fst r) k)"
      using v by (auto simp: C2_def)
    from that no have "below q k" by (auto simp: C1_def nd)
    then show ?thesis using below_split v no by blast
  qed
  have key_C1: "C1" if a: "k \<in> fst ` set ?kids"
  proof -
    have "below (fst nd) k" using key_below [OF a] nd by simp
    moreover have "node_at t k \<noteq> None" by (rule key_valid [OF a])
    ultimately show ?thesis by (simp add: C1_def)
  qed
  have "(if C2 then parent_index t k else ?par' k) = (if C1 then parent_index t k else parent k)"
  proof (cases C2)
    case True
    then show ?thesis using C2_C1 by simp
  next
    case nC2: False
    show ?thesis
    proof (cases C1)
      case True
      then have "k \<in> fst ` set ?kids" using C1_key nC2 by blast
      then show ?thesis using True nC2 par' key_parent by simp
    next
      case False
      then have "k \<notin> fst ` set ?kids" using key_C1 by blast
      then show ?thesis using False nC2 par' by simp
    qed
  qed
  then show ?case using lhs by (simp only: C1_def)
qed

lemma populate_loop_root: "populate_loop [([], t)] Map.empty = parent_index t"
proof
  fix k
  have "populate_loop [([], t)] Map.empty k
          = (if below [] k \<and> node_at t k \<noteq> None then parent_index t k else None)"
    using populate_loop_inv [of "[([], t)]" t Map.empty k] by simp
  also have "\<dots> = parent_index t k"
    by (cases k) (auto simp: below_def parent_index_def)
  finally show "populate_loop [([], t)] Map.empty k = parent_index t k" .
qed

section \<open>The walk up the parent chain\<close>

lemma enclosing_block_loop_None: "enclosing_block_loop par None cl = Some cl"
  by (simp add: enclosing_block_loop.simps)

lemma enclosing_block_loop_Some:
  "enclosing_block_loop par (Some c) cl =
     (if is_def (snd c) then Some (Some c)
      else enclosing_block_loop par (par (fst c)) (if is_stmt (snd c) then Some c else cl))"
  by (subst enclosing_block_loop.simps) simp

lemma enclosing_block_loop_parent_index:
  "node_at t p = Some n \<Longrightarrow>
   enclosing_block_loop (parent_index t) (Some (p, n)) cl = Some (scan ((p, n) # ancestors t p) cl)"
proof (induction p arbitrary: n cl)
  case Nil
  then show ?case
    by (simp add: enclosing_block_loop_Some enclosing_block_loop_None parent_index_def)
next
  case (Cons i q)
  from Cons.prems obtain m where m: "node_at t q = Some m"
    by (auto split: option.splits)
  have par: "parent_index t (i # q) = Some (q, m)"
    using Cons.prems m by (simp add: parent_index_def)
  show ?case
    using Cons.IH [OF m] m par
    by (simp add: enclosing_block_loop_Some del: node_at.simps)
qed

lemma find_append:
  "find P (xs @ ys) = (case find P xs of Some x \<Rightarrow> Some x | None \<Rightarrow> find P ys)"
  by (induction xs) auto

lemma scan_find:
  "scan cs cl =
     (case find (\<lambda>c. is_def (snd c)) cs of
        Some d \<Rightarrow> Some d
      | None \<Rightarrow> (case find (\<lambda>c. is_stmt (snd c)) (rev cs) of Some s \<Rightarrow> Some s | None \<Rightarrow> cl))"
  by (induction cs arbitrary: cl) (auto simp: find_append split: option.splits)

section \<open>The traversal as a fold over the candidates\<close>

lemma dotted_root:
  "name_in als (attribute_root n) \<longleftrightarrow> (\<exists>b segs. dotted n = Some (b, segs) \<and> b \<in> als)"
  by (induction n) (auto split: option.splits)

lemma dotted_parts:
  "dotted n = Some (b, segs) \<Longrightarrow> attribute_parts n acc = acc @ rev segs @ [b]"
  by (induction n arbitrary: acc segs) (auto split: option.splits)

lemma dotted_full_name:
  "dotted n = Some (b, segs) \<Longrightarrow> attribute_full_name n = join ''.'' (b # segs)"
  by (simp add: attribute_full_name_def dotted_parts)

lemma record_usage_parent_index:
  assumes "uc_parent self = parent_index t" "node_at t p = Some n"
  shows "record_usage L self (p, n) s = Some (add_candidate L t self ((p, n), s))"
  using assms
  by (simp add: record_usage_def enclosing_block_def enclosing_block_loop_parent_index
      add_candidate_def span_of_def enclosing_of_def new_block_def Let_def
      split: option.splits)

lemma add_candidate_frame [simp]:
  "uc_parent (add_candidate L t self c) = uc_parent self"
  "uc_aliases (add_candidate L t self c) = uc_aliases self"
  "uc_lines (add_candidate L t self c) = uc_lines self"
  by (auto simp: add_candidate_def split: option.splits)

lemma foldl_add_candidate_frame [simp]:
  "uc_parent (foldl (add_candidate L t) self cs) = uc_parent self"
  "uc_aliases (foldl (add_candidate L t) self cs) = uc_aliases self"
  "uc_lines (foldl (add_candidate L t) self cs) = uc_lines self"
  by (induction cs arbitrary: self) auto

lemma part_of_attribute_parent_index:
  assumes "uc_parent self = parent_index t" "node_at t p = Some n"
  shows "part_of_attribute self (p, n) \<longleftrightarrow> base_of_attribute t p"
proof (cases p)
  case Nil
  then show ?thesis
    using assms by (simp add: part_of_attribute_def base_of_attribute_def parent_index_def)
next
  case (Cons i q)
  then show ?thesis
    using assms
    by (auto simp: part_of_attribute_def base_of_attribute_def parent_index_def
        split: option.splits if_splits)
qed

lemma visit_parent_index:
  "uc_parent self = parent_index t \<Longrightarrow> node_at t p = Some n \<Longrightarrow>
     visit L p n self
       = Some (foldl (add_candidate L t) self
                (candidates (uc_aliases self) p (base_of_attribute t p) n))"
  "uc_parent self = parent_index t \<Longrightarrow> node_at t p = Some m \<Longrightarrow> \<not> is_Attribute m \<Longrightarrow>
     drop i (iter_child_nodes m) = cs \<Longrightarrow>
     visit_children L p i cs self
       = Some (foldl (add_candidate L t) self (candidates_children (uc_aliases self) p i cs))"
proof (induction L p n self and L p i cs self arbitrary: and m rule: visit_visit_children.induct)
  case (1 L p i cx self)
  then show ?case
    by (simp add: part_of_attribute_parent_index record_usage_parent_index)
next
  case (2 L p v a cx self)
  let ?n = "Attribute v a cx"
  have child: "node_at t (0 # p) = Some v" using "2.prems" by simp
  have base: "base_of_attribute t (0 # p)" using "2.prems" by (simp add: base_of_attribute_def)
  show ?case
  proof (cases "name_in (uc_aliases self) (attribute_root ?n)")
    case True
    then obtain b segs where d: "dotted ?n = Some (b, segs)" "b \<in> uc_aliases self"
      using dotted_root by blast
    let ?self' = "add_candidate L t self ((p, ?n), join ''.'' (b # segs))"
    have rec: "record_usage L self (p, ?n) (attribute_full_name ?n) = Some ?self'"
      using "2.prems" d by (simp add: record_usage_parent_index dotted_full_name del: dotted.simps)
    have "visit L (0 # p) v ?self'
       = Some (foldl (add_candidate L t) ?self'
                (candidates (uc_aliases ?self') (0 # p) (base_of_attribute t (0 # p)) v))"
      using True rec "2.prems" child by (intro "2.IH") (simp_all del: node_at.simps)
    then show ?thesis
      using True rec d base by (simp del: dotted.simps node_at.simps)
  next
    case False
    then have nd: "\<not> (\<exists>b segs. dotted ?n = Some (b, segs) \<and> b \<in> uc_aliases self)"
      using dotted_root by blast
    have "visit L (0 # p) v self
       = Some (foldl (add_candidate L t) self
                (candidates (uc_aliases self) (0 # p) (base_of_attribute t (0 # p)) v))"
      using False "2.prems" child by (intro "2.IH") (simp_all del: node_at.simps)
    then show ?thesis
      using False nd base by (auto simp del: dotted.simps node_at.simps split: option.splits)
  qed
next
  case (12 L p i c cs self)
  have c: "node_at t (i # p) = Some c"
  proof -
    have "i < length (iter_child_nodes m)" "iter_child_nodes m ! i = c"
      using "12.prems"(4) by (metis drop_eq_Nil2 list.distinct(1) not_le_imp_less,
          metis hd_drop_conv_nth drop_eq_Nil2 list.distinct(1) not_le_imp_less list.sel(1))
    then show ?thesis using "12.prems" by simp
  qed
  have nb: "\<not> base_of_attribute t (i # p)"
    using "12.prems" by (simp add: base_of_attribute_def)
  have rest: "drop (Suc i) (iter_child_nodes m) = cs"
    using "12.prems"(4) by (metis drop_Suc tl_drop list.sel(3))
  have v: "visit L (i # p) c self
       = Some (foldl (add_candidate L t) self (candidates (uc_aliases self) (i # p) False c))"
    using "12.IH"(1) [OF "12.prems"(1) c] nb by simp
  show ?case
    using v "12.IH"(2) [OF v _ "12.prems"(2,3) rest] "12.prems"(1)
    by simp
qed (simp_all)

section \<open>Deduplication\<close>

lemma keyed_Nil [simp]: "keyed t [] = []"
  by (simp add: keyed_def List.map_filter_simps)

lemma keyed_Cons:
  "keyed t (c # cs) = (case span_of t (fst c) of None \<Rightarrow> keyed t cs | Some k \<Rightarrow> (k, snd c) # keyed t cs)"
  by (simp add: keyed_def List.map_filter_simps split: option.splits)

lemma well_keyed_add:
  assumes "well_keyed L (uc_lines self) K (blocks_map self)"
  shows "well_keyed L (uc_lines self) (K @ keyed t [c]) (blocks_map (add_candidate L t self c))"
proof (cases "span_of t (fst c)")
  case None
  then show ?thesis using assms by (simp add: add_candidate_def keyed_Cons)
next
  case (Some k)
  have old: "map_of (K @ [(k, snd c)]) (fst e) = map_of K (fst e)" if "e \<in> set (blocks_map self)" for e
  proof -
    from that assms have "fst e \<in> fst ` set K" by (auto simp: well_keyed_def)
    then have "fst e \<in> dom (map_of K)" by (simp add: dom_map_of_conv_image_fst)
    then show ?thesis by (auto simp: map_add_def split: option.splits)
  qed
  show ?thesis
  proof (cases "k \<in> fst ` set (blocks_map self)")
    case True
    then have "k \<in> fst ` set K" using assms by (simp add: well_keyed_def)
    then show ?thesis
      using assms Some True old
      by (auto simp: add_candidate_def keyed_Cons well_keyed_def list_all_iff simp del: map_of_append)
  next
    case False
    then have "k \<notin> fst ` set K" using assms by (simp add: well_keyed_def)
    then have "map_of K k = None" by (simp add: map_of_eq_None_iff)
    then have new: "map_of (K @ [(k, snd c)]) k = Some (snd c)"
      by (simp add: map_add_def)
    show ?thesis
      using assms Some False old new
      by (auto simp: add_candidate_def keyed_Cons well_keyed_def list_all_iff new_block_def
          simp del: map_of_append)
  qed
qed

lemma keyed_append: "keyed t (xs @ ys) = keyed t xs @ keyed t ys"
  by (induction xs) (auto simp: keyed_Cons split: option.splits)

lemma well_keyed_foldl:
  "well_keyed L (uc_lines self) K (blocks_map self) \<Longrightarrow>
   well_keyed L (uc_lines self) (K @ keyed t cs) (blocks_map (foldl (add_candidate L t) self cs))"
proof (induction cs arbitrary: self K)
  case Nil
  then show ?case by simp
next
  case (Cons c cs)
  have "well_keyed L (uc_lines (add_candidate L t self c)) ((K @ keyed t [c]) @ keyed t cs)
          (blocks_map (foldl (add_candidate L t) (add_candidate L t self c) cs))"
    using well_keyed_add [OF Cons.prems, of t c] by (intro Cons.IH) simp
  moreover have "keyed t (c # cs) = keyed t [c] @ keyed t cs"
    using keyed_append [of t "[c]" cs] by simp
  ultimately show ?case by simp
qed

section \<open>The alias set of a tree\<close>

lemma matches_library_spec:
  "coherent self \<Longrightarrow> matches_library self P = spec_matches (base self) P"
  by (simp add: coherent_def matches_library_def spec_matches_def hd_split startswith_iff
      first_segment_def)

lemma add_alias_frame [simp]:
  "base (add_alias a self) = base self"
  "base_root (add_alias a self) = base_root self"
  "aliases (add_alias a self) = insert a (aliases self)"
  "coherent (add_alias a self) = coherent self"
  by (simp_all add: add_alias_def coherent_def)

lemma import_alias_step_frame [simp]:
  "base (import_alias_step al self) = base self"
  "coherent (import_alias_step al self) = coherent self"
  by (simp_all add: import_alias_step_def)

lemma importfrom_alias_step_frame [simp]:
  "base (importfrom_alias_step m al self) = base self"
  "coherent (importfrom_alias_step m al self) = coherent self"
  by (simp_all add: importfrom_alias_step_def)

lemma fold_import_alias_step:
  "coherent self \<Longrightarrow>
   base (fold import_alias_step names self) = base self
   \<and> coherent (fold import_alias_step names self)
   \<and> aliases (fold import_alias_step names self)
       = aliases self \<union> import_names (base self) (Import l e names)"
proof (induction names arbitrary: self)
  case Nil
  then show ?case by simp
next
  case (Cons al names)
  have step: "aliases (import_alias_step al self)
      = aliases self \<union> (if spec_matches (base self) (alias_name al)
           then {or_else (alias_asname al) (first_segment (alias_name al))} else {})"
    using Cons.prems
    by (simp add: import_alias_step_def matches_library_spec hd_split first_segment_def)
  have "coherent (import_alias_step al self)" using Cons.prems by simp
  from Cons.IH [OF this] step show ?case by auto
qed

lemma fold_importfrom_alias_step:
  "coherent self \<Longrightarrow>
   base (fold (importfrom_alias_step m) names self) = base self
   \<and> coherent (fold (importfrom_alias_step m) names self)
   \<and> aliases (fold (importfrom_alias_step m) names self)
       = aliases self \<union> (\<Union>al \<in> set names.
              if alias_name al = ''*'' then {last (split CHR ''.'' m), first_segment (base self)}
              else {or_else (alias_asname al) (alias_name al)})"
proof (induction names arbitrary: self)
  case Nil
  then show ?case by simp
next
  case (Cons al names)
  have root: "base_root self = first_segment (base self)"
    using Cons.prems by (simp add: coherent_def hd_split first_segment_def)
  have step: "aliases (importfrom_alias_step m al self)
      = aliases self \<union> (if alias_name al = ''*''
           then {last (split CHR ''.'' m), first_segment (base self)}
           else {or_else (alias_asname al) (alias_name al)})"
    using root by (auto simp: importfrom_alias_step_def)
  have "coherent (importfrom_alias_step m al self)" using Cons.prems by simp
  from Cons.IH [OF this] step show ?case by auto
qed

lemma alias_visit_names:
  "coherent self \<Longrightarrow>
     base (alias_visit n self) = base self \<and> coherent (alias_visit n self)
     \<and> aliases (alias_visit n self)
         = aliases self \<union> (\<Union>x \<in> set (subnodes n). import_names (base self) x)"
  "coherent self \<Longrightarrow>
     base (alias_visit_children cs self) = base self \<and> coherent (alias_visit_children cs self)
     \<and> aliases (alias_visit_children cs self)
         = aliases self \<union> (\<Union>x \<in> set (subnodes_list cs). import_names (base self) x)"
proof (induction n self and cs self rule: alias_visit_alias_visit_children.induct)
  case (1 l e names self)
  then show ?case using fold_import_alias_step [of self names l e] by (simp add: visit_Import_def)
next
  case (2 l e module names self)
  then show ?case
    using fold_importfrom_alias_step [of self "the module" names]
    by (cases module) (auto simp: visit_ImportFrom_def matches_library_spec)
next
  case (12 c cs self)
  then show ?case by auto
qed auto

lemma collect_aliases_names:
  "collect_aliases lib t = (\<Union>x \<in> set (subnodes t). import_names lib x)"
  using alias_visit_names(1) [of "AliasCollector_init lib" t]
  by (simp add: collect_aliases_def coherent_def AliasCollector_init_def)

lemma import_names_empty: "\<not> imports_library lib n \<Longrightarrow> import_names lib n = {}"
  by (cases "(lib, n)" rule: import_names.cases) (auto simp: imports_library_def)

section \<open>The extractor on a parsed tree\<close>

lemma populate_loop_again: "populate_loop [([], t)] (parent_index t) = parent_index t"
proof
  fix k
  show "populate_loop [([], t)] (parent_index t) k = parent_index t k"
    using populate_loop_inv [of "[([], t)]" t "parent_index t" k]
    by (simp del: populate_loop.simps)
qed

lemma candidates_no_aliases:
  "candidates {} p b n = []"
  "candidates_children {} p i cs = []"
  by (induction "{} :: string set" p b n and "{} :: string set" p i cs
      rule: candidates_candidates_children.induct)
    (auto split: option.splits)

lemma extract_blocks_eq:
  assumes "parent ex = Map.empty \<or> parent ex = parent_index (tree ex)"
  shows "extract_blocks L ex
           = Some (traversal_blocks L (library ex) (lines ex) (tree ex),
                   ex\<lparr>parent := parent_index (tree ex)\<rparr>)"
proof -
  let ?t = "tree ex"
  have pop: "populate_parent_links ex = ex\<lparr>parent := parent_index ?t\<rparr>"
    using assms
    by (auto simp: populate_parent_links_def populate_loop_root populate_loop_again
        simp del: populate_loop.simps)
  let ?als = "collect_aliases (library ex) ?t"
  let ?uc = "UsageCollector_init (lines ex) ?als (parent_index ?t)"
  have v: "visit L [] ?t ?uc
       = Some (foldl (add_candidate L ?t) ?uc (candidates (uc_aliases ?uc) [] (base_of_attribute ?t []) ?t))"
    by (rule visit_parent_index) (simp_all add: UsageCollector_init_def)
  have empty: "traversal_blocks L (library ex) (lines ex) ?t = []" if "?als = {}"
    using that by (simp add: traversal_blocks_def candidates_no_aliases blocks_def UsageCollector_init_def)
  show ?thesis
  proof (cases "?als = {}")
    case True
    then show ?thesis using pop empty by (simp add: extract_blocks_def Let_def)
  next
    case False
    then show ?thesis
      using pop v
      by (simp add: extract_blocks_def Let_def traversal_blocks_def base_of_attribute_def
          UsageCollector_init_def)
  qed
qed

lemma well_keyed_traversal:
  "well_keyed L ls (keyed t (candidates (collect_aliases lib t) [] False t))
     (blocks_map (foldl (add_candidate L t)
        (UsageCollector_init ls (collect_aliases lib t) (parent_index t))
        (candidates (collect_aliases lib t) [] False t)))"
proof -
  let ?uc = "UsageCollector_init ls (collect_aliases lib t) (parent_index t)"
  have "well_keyed L (uc_lines ?uc) [] (blocks_map ?uc)"
    by (simp add: well_keyed_def UsageCollector_init_def)
  from well_keyed_foldl [OF this, of t] show ?thesis
    by (simp add: UsageCollector_init_def)
qed

lemma span_new_block [simp]: "span (new_block L ls k s) = k"
  by (simp add: span_def new_block_def)

lemma well_keyed_spans:
  assumes "well_keyed L ls K bm"
  shows "map span (map snd bm) = map fst bm"
proof -
  have "\<forall>e \<in> set bm. span (snd e) = fst e"
  proof
    fix e assume "e \<in> set bm"
    then have "snd e = new_block L ls (fst e) (symbol (snd e))"
      using assms by (simp add: well_keyed_def list_all_iff)
    then show "span (snd e) = fst e" by (metis span_new_block)
  qed
  then show ?thesis by simp
qed

lemma traversal_blocks_facts:
  fixes L lib ls t
  defines "K \<equiv> keyed t (candidates (collect_aliases lib t) [] False t)"
  defines "bs \<equiv> traversal_blocks L lib ls t"
  shows "distinct (map span bs)"
    and "set (map span bs) = fst ` set K"
    and "\<forall>b \<in> set bs. map_of K (span b) = Some (symbol b)
           \<and> snippet b = make_snippet L ls (start_line b) (end_line b)"
proof -
  let ?bm = "blocks_map (foldl (add_candidate L t)
        (UsageCollector_init ls (collect_aliases lib t) (parent_index t))
        (candidates (collect_aliases lib t) [] False t))"
  have wk: "well_keyed L ls K ?bm"
    unfolding K_def by (rule well_keyed_traversal)
  have bs: "bs = map snd ?bm"
    by (simp add: bs_def traversal_blocks_def blocks_def)
  have spans: "map span bs = map fst ?bm"
    using well_keyed_spans [OF wk] bs by simp
  show "distinct (map span bs)"
    using wk spans by (simp add: well_keyed_def)
  show "set (map span bs) = fst ` set K"
    using wk spans by (simp add: well_keyed_def)
  show "\<forall>b \<in> set bs. map_of K (span b) = Some (symbol b)
           \<and> snippet b = make_snippet L ls (start_line b) (end_line b)"
  proof
    fix b assume "b \<in> set bs"
    then obtain e where e: "e \<in> set ?bm" "b = snd e" using bs by auto
    then have 1: "map_of K (fst e) = Some (symbol b)" and 2: "b = new_block L ls (fst e) (symbol b)"
      using wk by (simp_all add: well_keyed_def list_all_iff)
    have "span b = fst e" using 2 by (metis span_new_block)
    moreover have "snippet b = make_snippet L ls (start_line b) (end_line b)"
      using 2 by (metis (no_types, lifting) BlockCapture.select_convs new_block_def)
    ultimately show "map_of K (span b) = Some (symbol b)
           \<and> snippet b = make_snippet L ls (start_line b) (end_line b)"
      using 1 by simp
  qed
qed

text \<open>
  On any parent index, and whatever the traversal meets, the entries already stored stay
  as they are and where they are: a later candidate can only append.
\<close>

lemma record_usage_keeps_entries:
  "record_usage L self nd s = Some self' \<Longrightarrow>
     \<exists>new. blocks_map self' = blocks_map self @ new"
  by (auto simp: record_usage_def Let_def split: option.splits if_splits)

lemma visit_keeps_entries:
  "visit L p n self = Some self' \<Longrightarrow> \<exists>new. blocks_map self' = blocks_map self @ new"
  "visit_children L p i cs self = Some self' \<Longrightarrow> \<exists>new. blocks_map self' = blocks_map self @ new"
proof (induction L p n self and L p i cs self arbitrary: self' and self'
    rule: visit_visit_children.induct)
  case (1 L p i cx self)
  then show ?case by (auto split: if_splits dest: record_usage_keeps_entries)
next
  case (2 L p v a cx self)
  show ?case
  proof (cases "name_in (uc_aliases self) (attribute_root (Attribute v a cx))")
    case True
    with "2.prems" obtain s1 where s1:
      "record_usage L self (p, Attribute v a cx) (attribute_full_name (Attribute v a cx)) = Some s1"
      "visit L (0 # p) v s1 = Some self'"
      by (auto split: option.splits)
    from record_usage_keeps_entries [OF s1(1)] obtain n1 where "blocks_map s1 = blocks_map self @ n1" ..
    moreover from "2.IH" [of s1 self'] True s1 obtain n2 where "blocks_map self' = blocks_map s1 @ n2"
      by auto
    ultimately show ?thesis by simp
  next
    case False
    with "2.prems" have "visit L (0 # p) v self = Some self'" by simp
    with "2.IH" [of self self'] False show ?thesis by simp
  qed
next
  case (12 L p i c cs self)
  from "12.prems" obtain s1 where s1: "visit L (i # p) c self = Some s1"
    "visit_children L p (Suc i) cs s1 = Some self'"
    by (auto split: option.splits)
  from "12.IH"(1) [OF s1(1)] obtain n1 where "blocks_map s1 = blocks_map self @ n1" ..
  moreover from "12.IH"(2) [OF s1(1) s1(2)] obtain n2 where "blocks_map self' = blocks_map s1 @ n2" ..
  ultimately show ?case by simp
qed auto

text \<open>
  On the parent index of a tree the walk returns the first definition among the node and
  its ancestors; when there is none, the LAST statement among them, which is the one
  nearest to the root; when there is none either, nothing.
\<close>

lemma enclosing_block_parent_index:
  assumes "uc_parent self = parent_index t" "node_at t p = Some n"
  shows "enclosing_block self (p, n)
           = Some (case find (\<lambda>c. is_def (snd c)) ((p, n) # ancestors t p) of
                     Some d \<Rightarrow> Some d
                   | None \<Rightarrow> find (\<lambda>c. is_stmt (snd c)) (rev ((p, n) # ancestors t p)))"
proof -
  have "enclosing_block self (p, n) = Some (scan ((p, n) # ancestors t p) None)"
    using assms by (simp add: enclosing_block_def enclosing_block_loop_parent_index)
  also have "scan ((p, n) # ancestors t p) None
      = (case find (\<lambda>c. is_def (snd c)) ((p, n) # ancestors t p) of
                     Some d \<Rightarrow> Some d
                   | None \<Rightarrow> find (\<lambda>c. is_stmt (snd c)) (rev ((p, n) # ancestors t p)))"
    by (subst scan_find) (simp split: option.splits)
  finally show ?thesis .
qed












section \<open>The stand-in parser on the example texts\<close>

lemma example_parse_pandas: "example_parse (join nl pandas_lines) = Inr pandas_tree"
  by code_simp

lemma example_parse_bad: "example_parse ''def f(:'' = Inl SyntaxError"
  by code_simp

section \<open>Claims\<close>

text \<open>
  C1, at the text \<^verbatim>\<open>import numpy as np\<close>, \<^verbatim>\<open>if c:\<close>, \<^verbatim>\<open>    x = np.array(1)\<close>. The reference
  \<^verbatim>\<open>np.array\<close> has no definition above it and two statements: the assignment on line 3,
  nearest to it, and the \<^verbatim>\<open>if\<close> on lines 2 to 3. \<^verbatim>\<open>_enclosing_block\<close> returns the \<^verbatim>\<open>if\<close>
  statement, and the block reported spans lines 2 to 3, where the claim names the
  assignment (line 3). \<open>enclosing_block_parent_index\<close> above is the general fact.
\<close>

theorem C1_outermost_statement_is_taken:
  "node_at if_tree [0, 1, 1, 1] = Some (Attribute (Name ''np'' Load) ''array'' Load)
   \<and> map (\<lambda>c. (fst c, lineno (snd c), end_lineno (snd c)))
         (filter (\<lambda>c. is_stmt (snd c)) (ancestors if_tree [0, 1, 1, 1]))
       = [([1, 1], Some 3, Some 3), ([1], Some 2, Some 3)]
   \<and> map_option (map_option (\<lambda>c. (fst c, lineno (snd c), end_lineno (snd c))))
         (enclosing_block if_collector ([0, 1, 1, 1], Attribute (Name ''np'' Load) ''array'' Load))
       = Some (Some ([1], Some 2, Some 3))
   \<and> map_option fst (extract_blocks example_lib (extractor_of ''numpy'' if_lines if_tree))
       = Some [\<lparr>start_line = 2, end_line = 3, symbol = ''np.array'',
                 snippet = join nl [''if c:'', ''    x = np.array(1)'']\<rparr>]"
  by code_simp

text \<open>
  C2. An attribute access whose value chain ends in a bare identifier \<open>b\<close> of the alias
  set, with the attribute segments \<open>segs\<close> from the innermost to the outermost, is passed
  to \<^verbatim>\<open>_record\<close> with the symbol \<open>b\<close> and the segments joined by dots, before its value is
  visited. For \<^verbatim>\<open>import pkg\<close> and a function whose only reference is \<^verbatim>\<open>pkg.sub.fn()\<close>, the
  analysis returns one block, for the function, with the symbol \<^verbatim>\<open>pkg.sub.fn\<close>, whatever
  the libraries and the lines are.
\<close>

theorem C2_attribute_symbol_is_dotted_path:
  assumes "dotted (Attribute v a cx) = Some (b, segs)" and "b \<in> uc_aliases self"
  shows "attribute_full_name (Attribute v a cx) = join ''.'' (b # segs)
         \<and> visit L p (Attribute v a cx) self
             = (case record_usage L self (p, Attribute v a cx) (join ''.'' (b # segs)) of
                  None \<Rightarrow> None
                | Some self' \<Rightarrow> visit L (0 # p) v self')
         \<and> map_option fst (extract_blocks L (extractor_of ''pkg'' ls pkg_tree))
             = Some [\<lparr>start_line = 2, end_line = 3, symbol = ''pkg.sub.fn'',
                       snippet = make_snippet L ls 2 3\<rparr>]"
proof (intro conjI)
  show full: "attribute_full_name (Attribute v a cx) = join ''.'' (b # segs)"
    by (rule dotted_full_name [OF assms(1)])
  have "name_in (uc_aliases self) (attribute_root (Attribute v a cx))"
    using assms dotted_root by blast
  then show "visit L p (Attribute v a cx) self
             = (case record_usage L self (p, Attribute v a cx) (join ''.'' (b # segs)) of
                  None \<Rightarrow> None
                | Some self' \<Rightarrow> visit L (0 # p) v self')"
    using full by (simp del: attribute_root.simps)
  show "map_option fst (extract_blocks L (extractor_of ''pkg'' ls pkg_tree))
             = Some [\<lparr>start_line = 2, end_line = 3, symbol = ''pkg.sub.fn'',
                       snippet = make_snippet L ls 2 3\<rparr>]"
    by code_simp
qed

theorem C2_witness:
  "dotted (Attribute (Attribute (Name ''pkg'' Load) ''sub'' Load) ''fn'' Load)
     = Some (''pkg'', [''sub'', ''fn''])
   \<and> ''pkg'' \<in> uc_aliases pkg_collector
   \<and> attribute_full_name (Attribute (Attribute (Name ''pkg'' Load) ''sub'' Load) ''fn'' Load)
       = ''pkg.sub.fn''
   \<and> map_option blocks
         (visit example_lib [0, 0, 1, 1]
            (Attribute (Attribute (Name ''pkg'' Load) ''sub'' Load) ''fn'' Load) pkg_collector)
       = Some [\<lparr>start_line = 2, end_line = 3, symbol = ''pkg.sub.fn'',
                 snippet = join nl [''def f():'', ''    pkg.sub.fn()'']\<rparr>]
   \<and> map_option fst (extract_blocks example_lib (extractor_of ''pkg'' pkg_lines pkg_tree))
       = Some [\<lparr>start_line = 2, end_line = 3, symbol = ''pkg.sub.fn'',
                 snippet = join nl [''def f():'', ''    pkg.sub.fn()'']\<rparr>]"
proof -
  let ?n = "Attribute (Attribute (Name ''pkg'' Load) ''sub'' Load) ''fn'' Load"
  have h1: "dotted ?n = Some (''pkg'', [''sub'', ''fn''])" by simp
  have h2: "''pkg'' \<in> uc_aliases pkg_collector"
    by (simp add: pkg_collector_def UsageCollector_init_def)
  note t = C2_attribute_symbol_is_dotted_path [OF h1 h2, of example_lib "[0, 0, 1, 1]" pkg_lines]
  have full: "attribute_full_name ?n = ''pkg.sub.fn''"
    using t [THEN conjunct1] by simp
  have ev: "map_option fst (extract_blocks example_lib (extractor_of ''pkg'' pkg_lines pkg_tree))
       = Some [\<lparr>start_line = 2, end_line = 3, symbol = ''pkg.sub.fn'',
                 snippet = join nl [''def f():'', ''    pkg.sub.fn()'']\<rparr>]"
    by code_simp
  have rv: "map_option blocks (visit example_lib [0, 0, 1, 1] ?n pkg_collector)
       = Some [\<lparr>start_line = 2, end_line = 3, symbol = ''pkg.sub.fn'',
                 snippet = join nl [''def f():'', ''    pkg.sub.fn()'']\<rparr>]"
    by code_simp
  show ?thesis using h1 h2 full rv ev by - (intro conjI; assumption)
qed

text \<open>
  C3. For a module path \<open>P\<close> and a library \<open>L\<close> whose root segment is the first dotted
  segment of \<open>L\<close>, the alias collector's \<open>matches_library\<close> holds exactly when \<open>P = L\<close>, or
  \<open>P\<close> starts with \<open>L\<close> followed by a dot, or the first dotted segment of \<open>P\<close> is the
  root segment. The collector is any one whose \<open>base\<close> and \<open>base_root\<close> are as the
  constructor sets them; the aliases collected so far play no part.
\<close>

theorem C3_matches_library_rule:
  "matches_library (self\<lparr>base := L, base_root := hd (split CHR ''.'' L)\<rparr>) P
     = spec_matches L P"
  by (simp add: matches_library_def spec_matches_def hd_split startswith_iff first_segment_def)

text \<open>
  C4, as the claim states it, fails where the order of the visitor is not the order of
  the text. In the decorated function both references have the function's span, lines 3
  to 4; the decorator \<^verbatim>\<open>np.vectorize\<close> stands first in the text (line 2), but the visitor
  reaches the body before the decorators, and the block gets the symbol \<^verbatim>\<open>np.sin\<close>.
\<close>

theorem C4_counterexample:
  "node_at deco_tree [2, 1] = Some (Attribute (Name ''np'' Load) ''vectorize'' Load)
   \<and> node_at deco_tree [0, 0, 1, 1] = Some (Attribute (Name ''np'' Load) ''sin'' Load)
   \<and> before_in_text (deco_position [2, 1]) (deco_position [0, 0, 1, 1])
   \<and> map fst (candidates (collect_aliases ''numpy'' deco_tree) [] False deco_tree)
       = [([0, 0, 1, 1], Attribute (Name ''np'' Load) ''sin'' Load),
          ([2, 1], Attribute (Name ''np'' Load) ''vectorize'' Load)]
   \<and> span_candidates ''numpy'' deco_tree = [((3, 4), ''np.sin''), ((3, 4), ''np.vectorize'')]
   \<and> document_first_symbol deco_position ''numpy'' deco_tree (3, 4) = Some ''np.vectorize''
   \<and> map_option (\<lambda>r. map (\<lambda>b. (span b, symbol b)) (fst r))
         (extract_blocks example_lib (extractor_of ''numpy'' deco_lines deco_tree))
       = Some [((3, 4), ''np.sin'')]"
  by code_simp

text \<open>
  C4, amended. The analysis of a parsed source returns blocks with pairwise different
  spans, one for each span that a candidate has; the symbol of a block is the symbol of the first
  candidate of the traversal that has the block's span (\<open>map_of\<close> takes the first pair of
  a key), and its snippet is the one cut for its span: no later candidate of that span
  changes either. The order of the candidates is the order of the visitor: a node
  before its children, the children in the order of \<^verbatim>\<open>ast.iter_child_nodes\<close>.
\<close>

theorem C4_first_candidate_fixes_block:
  assumes "parent ex = Map.empty"
  shows "\<exists>bs ex'. extract_blocks L ex = Some (bs, ex')
      \<and> distinct (map span bs)
      \<and> set (map span bs) = fst ` set (span_candidates (library ex) (tree ex))
      \<and> (\<forall>b \<in> set bs.
            map_of (span_candidates (library ex) (tree ex)) (span b) = Some (symbol b)
            \<and> snippet b = make_snippet L (lines ex) (start_line b) (end_line b))"
proof (intro exI conjI)
  show "extract_blocks L ex
          = Some (traversal_blocks L (library ex) (lines ex) (tree ex),
                  ex\<lparr>parent := parent_index (tree ex)\<rparr>)"
    using assms by (simp add: extract_blocks_eq)
  show "distinct (map span (traversal_blocks L (library ex) (lines ex) (tree ex)))"
    by (rule traversal_blocks_facts(1))
  show "set (map span (traversal_blocks L (library ex) (lines ex) (tree ex)))
          = fst ` set (span_candidates (library ex) (tree ex))"
    unfolding span_candidates_def by (rule traversal_blocks_facts(2))
  show "\<forall>b \<in> set (traversal_blocks L (library ex) (lines ex) (tree ex)).
            map_of (span_candidates (library ex) (tree ex)) (span b) = Some (symbol b)
            \<and> snippet b = make_snippet L (lines ex) (start_line b) (end_line b)"
    unfolding span_candidates_def by (rule traversal_blocks_facts(3))
qed

theorem C4_witness:
  "parent (extractor_of ''numpy'' two_lines two_tree) = Map.empty
   \<and> span_candidates ''numpy'' two_tree = [((2, 4), ''np.zeros''), ((2, 4), ''np.sum'')]
   \<and> map_option fst (extract_blocks example_lib (extractor_of ''numpy'' two_lines two_tree))
       = Some [\<lparr>start_line = 2, end_line = 4, symbol = ''np.zeros'',
                 snippet = join nl [''def f():'', ''    a = np.zeros(3)'', ''    return np.sum(a)'']\<rparr>]
   \<and> map_of (span_candidates ''numpy'' two_tree) (2, 4) = Some ''np.zeros''"
proof -
  let ?ex = "extractor_of ''numpy'' two_lines two_tree"
  have h: "parent ?ex = Map.empty"
    by (simp add: extractor_of_def)
  have sc: "span_candidates ''numpy'' two_tree = [((2, 4), ''np.zeros''), ((2, 4), ''np.sum'')]"
    by code_simp
  have ev: "map_option fst (extract_blocks example_lib ?ex)
       = Some [\<lparr>start_line = 2, end_line = 4, symbol = ''np.zeros'',
                 snippet = join nl [''def f():'', ''    a = np.zeros(3)'', ''    return np.sum(a)'']\<rparr>]"
    by code_simp
  from C4_first_candidate_fixes_block [OF h, of example_lib]
  obtain bs ex' where all: "extract_blocks example_lib ?ex = Some (bs, ex')
      \<and> distinct (map span bs)
      \<and> set (map span bs) = fst ` set (span_candidates (library ?ex) (tree ?ex))
      \<and> (\<forall>b \<in> set bs.
            map_of (span_candidates (library ?ex) (tree ?ex)) (span b) = Some (symbol b)
            \<and> snippet b = make_snippet example_lib (lines ?ex) (start_line b) (end_line b))"
    by (elim exE) (erule that)
  note r = all [THEN conjunct1] all [THEN conjunct2, THEN conjunct2, THEN conjunct2]
  from r(1) ev have bs: "bs = [\<lparr>start_line = 2, end_line = 4, symbol = ''np.zeros'',
                 snippet = join nl [''def f():'', ''    a = np.zeros(3)'', ''    return np.sum(a)'']\<rparr>]"
    by simp
  have "map_of (span_candidates ''numpy'' two_tree) (2, 4) = Some ''np.zeros''"
    using r(2) unfolding bs by (simp add: span_def extractor_of_def)
  then show ?thesis using h sc ev by - (intro conjI; assumption)
qed

text \<open>
  C5. A source text that the parser rejects with a syntax error contributes nothing and
  raises nothing: \<^verbatim>\<open>analyze_library\<close> goes on with the remaining items and the results
  gathered so far, and the analysis of that text alone returns the empty list.
\<close>

theorem C5_syntax_error_is_skipped:
  "ast_parse L src = Inl SyntaxError \<Longrightarrow>
     analyze_items L lib ((item, Some src) # rest) results = analyze_items L lib rest results
     \<and> analyze_library L lib [(item, Some src)] = Some (Inr [])"
  by (simp add: analyze_library_def new_extractor_def)

theorem C5_witness:
  "ast_parse example_lib ''def f(:'' = Inl SyntaxError
   \<and> analyze_library example_lib ''numpy'' [(example_item, Some ''def f(:'')] = Some (Inr [])"
proof -
  have h: "ast_parse example_lib ''def f(:'' = Inl SyntaxError"
    by (simp add: example_lib_def example_parse_bad)
  from C5_syntax_error_is_skipped [OF h, of "''numpy''" example_item "[]" "[]"] h
  show ?thesis by simp
qed

text \<open>
  C6. When no import statement anywhere in the parsed source matches the library, the
  alias set is empty, \<^verbatim>\<open>extract_blocks\<close> returns the empty list right after the alias
  collection (the usage collector is never run: the result holds whatever the traversal
  would do) and the analysis of the text returns the empty list.
\<close>

theorem C6_no_import_no_blocks:
  assumes "new_extractor L lib src = Inr ex"
    and "\<forall>n \<in> set (subnodes (tree ex)). \<not> imports_library lib n"
  shows "collect_aliases lib (tree ex) = {}
         \<and> extract_blocks L ex = Some ([], populate_parent_links ex)
         \<and> analyze_library L lib [(item, Some src)] = Some (Inr [])"
proof -
  have lib: "library ex = lib"
    using assms(1) by (auto simp: new_extractor_def split: sum.splits)
  have "collect_aliases lib (tree ex) = {}"
    using assms(2) by (simp add: collect_aliases_names import_names_empty)
  then have "extract_blocks L ex = Some ([], populate_parent_links ex)"
    using lib by (simp add: extract_blocks_def Let_def populate_parent_links_def)
  then show ?thesis
    using assms(1) \<open>collect_aliases lib (tree ex) = {}\<close>
    by (simp add: analyze_library_def)
qed

theorem C6_witness:
  "new_extractor example_lib ''numpy'' (join nl pandas_lines)
     = Inr (extractor_of ''numpy'' pandas_lines pandas_tree)
   \<and> list_all (\<lambda>n. \<not> imports_library ''numpy'' n) (subnodes pandas_tree)
   \<and> analyze_library example_lib ''numpy'' [(example_item, Some (join nl pandas_lines))]
       = Some (Inr [])"
proof -
  have sl: "split (CHR 0x0A) (join nl pandas_lines) = pandas_lines"
    by code_simp
  have h1: "new_extractor example_lib ''numpy'' (join nl pandas_lines)
     = Inr (extractor_of ''numpy'' pandas_lines pandas_tree)"
    by (simp add: new_extractor_def example_lib_def example_parse_pandas extractor_of_def sl)
  have h2: "list_all (\<lambda>n. \<not> imports_library ''numpy'' n) (subnodes pandas_tree)"
    by (simp add: pandas_tree_def imports_library_def spec_matches_def first_segment_def)
  have h2': "\<forall>n \<in> set (subnodes (tree (extractor_of ''numpy'' pandas_lines pandas_tree))).
      \<not> imports_library ''numpy'' n"
    using h2 by (simp add: list_all_iff extractor_of_def)
  from C6_no_import_no_blocks [OF h1 h2', of example_item] h1 h2
  show ?thesis by simp
qed

text \<open>
  C7, as the claim states it, fails: for a function \<open>g\<close> defined inside a function \<open>f\<close>,
  each with a reference of its own, the analysis returns a block for \<open>f\<close> (lines 2 to 5)
  and a block for \<open>g\<close> (lines 4 to 5), and the second span lies inside the first.
\<close>

theorem C7_counterexample:
  "map_option (\<lambda>r. map span (fst r))
     (extract_blocks example_lib (extractor_of ''numpy'' nested_lines nested_tree))
   = Some [(2, 5), (4, 5)]"
  by code_simp

text \<open>
  C7, amended. The analysis of a parsed source returns, and no two blocks it returns
  have the same span. (Spans of different blocks may intersect, as above.)
\<close>

theorem C7_blocks_have_distinct_spans:
  assumes "parent ex = Map.empty"
  shows "\<exists>bs ex'. extract_blocks L ex = Some (bs, ex') \<and> distinct (map span bs)"
  using extract_blocks_eq [of ex L] assms traversal_blocks_facts(1) by simp

theorem C7_witness:
  "parent (extractor_of ''numpy'' nested_lines nested_tree) = Map.empty
   \<and> map_option (\<lambda>r. map span (fst r))
         (extract_blocks example_lib (extractor_of ''numpy'' nested_lines nested_tree))
       = Some [(2, 5), (4, 5)]
   \<and> distinct [(2 :: int, 5 :: int), (4, 5)]"
proof -
  have h: "parent (extractor_of ''numpy'' nested_lines nested_tree) = Map.empty"
    by (simp add: extractor_of_def)
  from C7_blocks_have_distinct_spans [OF h, of example_lib]
  obtain bs ex' where r: "extract_blocks example_lib (extractor_of ''numpy'' nested_lines nested_tree)
      = Some (bs, ex')" "distinct (map span bs)" by blast
  have ev: "map_option (\<lambda>r. map span (fst r))
     (extract_blocks example_lib (extractor_of ''numpy'' nested_lines nested_tree))
   = Some [(2, 5), (4, 5)]"
    by code_simp
  with r have m: "map span bs = [(2, 5), (4, 5)]" by simp
  have d: "distinct [(2 :: int, 5 :: int), (4, 5)]" using r(2) unfolding m .
  show ?thesis using h ev d by blast
qed

text \<open>
  C8, as the claim states it, fails: an import inside a function body contributes its
  alias. In the example no top-level statement binds a name, and the alias set is
  \<open>{np}\<close>, from the import in the body of \<open>f\<close>.
\<close>

theorem C8_counterexample:
  "collect_aliases ''numpy'' local_tree = {''np''}
   \<and> (\<Union>n \<in> set (iter_child_nodes local_tree). import_names ''numpy'' n) = {}"
  by (simp add: collect_aliases_names local_tree_def spec_matches_def first_segment_def)

text \<open>
  C8, amended. A name is in the alias set exactly when some import statement of the
  tree, at any depth, binds it to the library (\<open>subnodes\<close> lists every node of the tree,
  \<open>import_names\<close> the names one import statement binds under the match rule).
\<close>

theorem C8_aliases_from_imports_at_any_depth:
  "a \<in> collect_aliases lib t \<longleftrightarrow> (\<exists>n \<in> set (subnodes t). a \<in> import_names lib n)"
  by (simp add: collect_aliases_names)

text \<open>
  C9. The analysis of a text that parses returns a definite list of blocks, and running
  \<^verbatim>\<open>extract_blocks\<close> again, on the extractor that the first run left behind (its parent
  index filled), returns the same list in the same order and leaves the extractor as it
  is; \<^verbatim>\<open>analyze_library\<close> returns exactly these blocks for the text.
\<close>

theorem C9_analysis_is_repeatable:
  assumes "new_extractor L lib src = Inr ex"
  shows "\<exists>bs ex'. extract_blocks L ex = Some (bs, ex')
           \<and> extract_blocks L ex' = Some (bs, ex')
           \<and> analyze_library L lib [(item, Some src)] = Some (Inr (map (to_CodeBlock item) bs))"
proof -
  have fresh: "parent ex = Map.empty"
    using assms by (auto simp: new_extractor_def split: sum.splits)
  let ?ex' = "ex\<lparr>parent := parent_index (tree ex)\<rparr>"
  let ?bs = "traversal_blocks L (library ex) (lines ex) (tree ex)"
  have 1: "extract_blocks L ex = Some (?bs, ?ex')"
    using extract_blocks_eq [of ex L] fresh by simp
  have 2: "extract_blocks L ?ex' = Some (?bs, ?ex')"
    using extract_blocks_eq [of ?ex' L] by simp
  have 3: "analyze_library L lib [(item, Some src)] = Some (Inr (map (to_CodeBlock item) ?bs))"
    using assms 1 by (simp add: analyze_library_def)
  from 1 2 3 show ?thesis by blast
qed

theorem C9_witness:
  "new_extractor example_lib ''numpy'' (join nl numpy_lines)
     = Inr (extractor_of ''numpy'' numpy_lines numpy_tree)
   \<and> map_option fst (extract_blocks example_lib (extractor_of ''numpy'' numpy_lines numpy_tree))
       = Some [\<lparr>start_line = 2, end_line = 3, symbol = ''np.array'',
                 snippet = join nl [''def f():'', ''    return np.array([1, 2])'']\<rparr>]
   \<and> map_option fst (extract_blocks example_lib
         (snd (the (extract_blocks example_lib (extractor_of ''numpy'' numpy_lines numpy_tree)))))
       = Some [\<lparr>start_line = 2, end_line = 3, symbol = ''np.array'',
                 snippet = join nl [''def f():'', ''    return np.array([1, 2])'']\<rparr>]"
proof -
  let ?ex = "extractor_of ''numpy'' numpy_lines numpy_tree"
  have p: "example_parse (join nl numpy_lines) = Inr numpy_tree"
    by code_simp
  have sl: "split (CHR 0x0A) (join nl numpy_lines) = numpy_lines"
    by code_simp
  have h: "new_extractor example_lib ''numpy'' (join nl numpy_lines) = Inr ?ex"
    by (simp add: new_extractor_def example_lib_def p sl extractor_of_def)
  have ev: "map_option fst (extract_blocks example_lib ?ex)
       = Some [\<lparr>start_line = 2, end_line = 3, symbol = ''np.array'',
                 snippet = join nl [''def f():'', ''    return np.array([1, 2])'']\<rparr>]"
    by code_simp
  from C9_analysis_is_repeatable [OF h, of example_item]
  obtain bs ex' where r: "extract_blocks example_lib ?ex = Some (bs, ex')"
    "extract_blocks example_lib ex' = Some (bs, ex')" by blast
  from r ev have "map_option fst (extract_blocks example_lib (snd (the (extract_blocks example_lib ?ex))))
       = Some [\<lparr>start_line = 2, end_line = 3, symbol = ''np.array'',
                 snippet = join nl [''def f():'', ''    return np.array([1, 2])'']\<rparr>]"
    by simp
  then show ?thesis using h ev by - (intro conjI; assumption)
qed




end
